theory Spec2Isabelle
  imports Main
begin

section \<open>Python strings\<close>

text \<open>
  A Python \<open>str\<close> is a sequence of code points. The model is \<open>string\<close> (a \<open>char list\<close>),
  one \<open>char\<close> per code point, for the code points below 256 (Latin-1): \<open>length\<close> is Python's
  \<open>len\<close>, and \<open>lower_char\<close> and \<open>isspace\<close> are \<open>str.lower\<close> and \<open>str.isspace\<close> on that range.
\<close>

definition isspace :: "char \<Rightarrow> bool" where
  "isspace c = (let n = (of_char c :: int) in
     (9 \<le> n \<and> n \<le> 13) \<or> (28 \<le> n \<and> n \<le> 32) \<or> n = 133 \<or> n = 160)"

definition lower_char :: "char \<Rightarrow> char" where
  "lower_char c = (let n = (of_char c :: int) in
     if (65 \<le> n \<and> n \<le> 90) \<or> (192 \<le> n \<and> n \<le> 222 \<and> n \<noteq> 215)
     then char_of (n + 32) else c)"

definition lower :: "string \<Rightarrow> string" where
  "lower s = map lower_char s"

definition lstrip :: "string \<Rightarrow> string" where
  "lstrip s = dropWhile isspace s"

definition rstrip :: "string \<Rightarrow> string" where
  "rstrip s = rev (dropWhile isspace (rev s))"

definition strip :: "string \<Rightarrow> string" where
  "strip s = rstrip (lstrip s)"

fun startswith :: "string \<Rightarrow> string \<Rightarrow> bool" where
  "startswith s [] = True"
| "startswith [] (p # ps) = False"
| "startswith (c # cs) (p # ps) = (c = p \<and> startswith cs ps)"

text \<open>\<open>contains p s\<close> is Python's \<open>p in s\<close> on strings.\<close>

fun contains :: "string \<Rightarrow> string \<Rightarrow> bool" where
  "contains p [] = (p = [])"
| "contains p (c # cs) = (startswith (c # cs) p \<or> contains p cs)"

text \<open>\<open>split_on c s\<close> is \<open>s.split(c)\<close> for a one-character separator.\<close>

fun split_on :: "char \<Rightarrow> string \<Rightarrow> string list" where
  "split_on c [] = [[]]"
| "split_on c (x # xs) =
     (if x = c then [] # split_on c xs
      else (case split_on c xs of
              [] \<Rightarrow> [[x]]
            | l # ls \<Rightarrow> (x # l) # ls))"

text \<open>\<open>split1 c s\<close> is \<open>s.split(c, 1)\<close>: at most one split, at the first separator.\<close>

fun split1 :: "char \<Rightarrow> string \<Rightarrow> string list" where
  "split1 c [] = [[]]"
| "split1 c (x # xs) =
     (if x = c then [[], xs]
      else (case split1 c xs of
              [] \<Rightarrow> [[x]]
            | l # ls \<Rightarrow> (x # l) # ls))"

text \<open>\<open>join sep xs\<close> is \<open>sep.join(xs)\<close>.\<close>

fun join :: "string \<Rightarrow> string list \<Rightarrow> string" where
  "join sep [] = []"
| "join sep [x] = x"
| "join sep (x # y # ys) = x @ sep @ join sep (y # ys)"

text \<open>\<open>str_int n\<close> is \<open>str(n)\<close> for an integer.\<close>

function digits :: "int \<Rightarrow> string" where
  "digits n =
     (if n < 10 then [char_of (48 + n)]
      else digits (n div 10) @ [char_of (48 + n mod 10)])"
  by pat_completeness auto
termination
  by (relation "measure nat") auto

definition str_int :: "int \<Rightarrow> string" where
  "str_int n = (if n < 0 then CHR ''-'' # digits (- n) else digits n)"

section \<open>Data classes\<close>

text \<open>
  The dataclass annotations are not enforced at run time, so the fields that the AI path
  fills from decoded JSON carry whatever value was decoded: \<open>Task\<close> is polymorphic in the
  type \<open>'v\<close> of those fields (\<open>string\<close> on the fallback path).
\<close>

record 'v Task =
  description :: 'v
  assignee :: 'v
  due_date :: 'v
  priority :: 'v
  status :: string

definition mk_Task :: "'v \<Rightarrow> 'v \<Rightarrow> 'v \<Rightarrow> 'v \<Rightarrow> 'v Task" where
  "mk_Task d a du p =
     \<lparr>description = d, assignee = a, due_date = du, priority = p, status = ''Pending''\<rparr>"

section \<open>The clock\<close>

text \<open>
  \<open>datetime.now()\<close> reads the system clock, and the code reads it again at every use. A
  \<open>clock\<close> gives the date of each reading, as a proleptic Gregorian ordinal
  (\<open>date.toordinal()\<close>: day 1 is 0001-01-01); the number of readings made so far is threaded
  through the functions that read it. Adding \<open>timedelta(days=n)\<close> adds \<open>n\<close> to the ordinal.
\<close>

type_synonym clock = "nat \<Rightarrow> int"

definition now :: "clock \<Rightarrow> nat \<Rightarrow> int \<times> nat" where
  "now clk k = (clk k, Suc k)"

text \<open>
  \<open>strftime_ymd\<close> is \<open>strftime("%Y-%m-%d")\<close> of the date with a given ordinal, for the years
  1000 to 9999, following \<open>_ord2ymd\<close> of the \<open>datetime\<close> module.
\<close>

definition days_before_month :: "int list" where
  "days_before_month = [0, 0, 31, 59, 90, 120, 151, 181, 212, 243, 273, 304, 334]"

definition days_in_month :: "int list" where
  "days_in_month = [0, 31, 28, 31, 30, 31, 30, 31, 31, 30, 31, 30, 31]"

definition ord2ymd :: "int \<Rightarrow> int \<times> int \<times> int" where
  "ord2ymd ordinal =
     (let n = ordinal - 1;
          n400 = n div 146097; n = n mod 146097;
          n100 = n div 36524; n = n mod 36524;
          n4 = n div 1461; n = n mod 1461;
          n1 = n div 365; n = n mod 365;
          year = n400 * 400 + 1 + n100 * 100 + n4 * 4 + n1
      in if n1 = 4 \<or> n100 = 4 then (year - 1, 12, 31)
         else
           (let leapyear = (n1 = 3 \<and> (n4 \<noteq> 24 \<or> n100 = 3));
                month = (n + 50) div 32;
                preceding = days_before_month ! nat month
                            + (if month > 2 \<and> leapyear then 1 else 0)
            in if preceding > n
               then (let month = month - 1;
                         preceding = preceding
                           - (days_in_month ! nat month
                              + (if month = 2 \<and> leapyear then 1 else 0))
                     in (year, month, n - preceding + 1))
               else (year, month, n - preceding + 1)))"

definition zfill :: "nat \<Rightarrow> string \<Rightarrow> string" where
  "zfill w s = replicate (w - length s) (CHR ''0'') @ s"

definition strftime_ymd :: "int \<Rightarrow> string" where
  "strftime_ymd ordinal =
     (case ord2ymd ordinal of (y, m, d) \<Rightarrow>
        zfill 4 (str_int y) @ ''-'' @ zfill 2 (str_int m) @ ''-'' @ zfill 2 (str_int d))"

section \<open>Fallback extraction (no AI)\<close>

text \<open>The lines the three fallback functions walk over: \<open>transcript.strip().split('\n')\<close>.\<close>

definition transcript_lines :: "string \<Rightarrow> string list" where
  "transcript_lines transcript = split_on (CHR ''\<newline>'') (strip transcript)"

subsection \<open>\<open>extract_summary_fallback\<close>\<close>

text \<open>
  \<open>topics\<close> is a Python set. The model keeps its elements as a list without repetitions, in
  the order they were first added; \<open>set_add\<close> is \<open>set.add\<close>. The order in which \<open>join\<close>
  iterates over the set is that of the interpreter's string hashing, which the program does
  not fix: it is the parameter \<open>set_iter\<close> of \<open>extract_summary_fallback\<close>, a function that
  lists the elements of the set in some order.
\<close>

definition set_add :: "'a \<Rightarrow> 'a list \<Rightarrow> 'a list" where
  "set_add x xs = (if x \<in> set xs then xs else xs @ [x])"

text \<open>The body of the \<open>for line in lines\<close> loop, and the loop.\<close>

definition summary_line :: "string \<Rightarrow> string list \<Rightarrow> string list" where
  "summary_line line topics =
     (if CHR '':'' \<in> set line then
        (let content = lower (strip (split1 (CHR '':'') line ! 1));
             topics = (if contains ''project'' content \<or> contains ''update'' content
                       then set_add ''Project Updates'' topics else topics);
             topics = (if contains ''deadline'' content \<or> contains ''timeline'' content
                       then set_add ''Timeline Discussion'' topics else topics);
             topics = (if contains ''budget'' content \<or> contains ''cost'' content
                       then set_add ''Budget Review'' topics else topics);
             topics = (if contains ''issue'' content \<or> contains ''problem'' content
                          \<or> contains ''blocker'' content
                       then set_add ''Blockers & Issues'' topics else topics)
         in topics)
      else topics)"

fun summary_loop :: "string list \<Rightarrow> string list \<Rightarrow> string list" where
  "summary_loop [] topics = topics"
| "summary_loop (line # lines) topics = summary_loop lines (summary_line line topics)"

definition extract_summary_fallback :: "(string list \<Rightarrow> string list) \<Rightarrow> string \<Rightarrow> string" where
  "extract_summary_fallback set_iter transcript =
     (let lines = transcript_lines transcript;
          topics = summary_loop lines [];
          summary = ''Meeting covered '' @ str_int (int (length lines)) @ '' discussion points''
      in if topics \<noteq> [] then summary @ '' including: '' @ join '', '' (set_iter topics) @ ''.''
         else summary)"

subsection \<open>\<open>extract_tasks_fallback\<close>\<close>

definition task_keywords :: "string list" where
  "task_keywords = [''will'', ''need to'', ''should'', ''action item'', ''todo'', ''task'',
                    ''follow up'', ''deadline'']"

text \<open>The \<open>for att in attendees\<close> loop with its \<open>break\<close>; \<open>assignee\<close> starts as "Unassigned".\<close>

fun find_assignee :: "string list \<Rightarrow> string \<Rightarrow> string \<Rightarrow> string" where
  "find_assignee [] line line_lower = ''Unassigned''"
| "find_assignee (att # atts) line line_lower =
     (if contains (lower att) line_lower
         \<or> (contains '': '' line \<and> contains (lower att) (lower (split_on (CHR '':'') line ! 0)))
      then att
      else find_assignee atts line line_lower)"

definition line_priority :: "string \<Rightarrow> string" where
  "line_priority line_lower =
     (if contains ''urgent'' line_lower \<or> contains ''asap'' line_lower
         \<or> contains ''critical'' line_lower then ''High''
      else if contains ''when possible'' line_lower \<or> contains ''eventually'' line_lower
      then ''Low''
      else ''Medium'')"

text \<open>
  The default \<open>due\<close> is computed first, from one reading of the clock; a line with
  "tomorrow" or "end of week" reads the clock once more.
\<close>

definition line_due :: "clock \<Rightarrow> nat \<Rightarrow> string \<Rightarrow> string \<times> nat" where
  "line_due clk k line_lower =
     (case now clk k of (d, k) \<Rightarrow>
        (let due = strftime_ymd (d + 7) in
         if contains ''tomorrow'' line_lower
         then (case now clk k of (d, k) \<Rightarrow> (strftime_ymd (d + 1), k))
         else if contains ''end of week'' line_lower
         then (case now clk k of (d, k) \<Rightarrow> (strftime_ymd (d + 5), k))
         else (due, k)))"

definition line_desc :: "string \<Rightarrow> string" where
  "line_desc line =
     (if CHR '':'' \<in> set line then strip (split1 (CHR '':'') line ! 1) else strip line)"

text \<open>
  The body of the \<open>for line in lines\<close> loop: the task list and the count of clock readings,
  updated.
\<close>

definition tasks_line ::
  "clock \<Rightarrow> string list \<Rightarrow> string \<Rightarrow> string Task list \<times> nat \<Rightarrow> string Task list \<times> nat" where
  "tasks_line clk attendees line st =
     (case st of (tasks, k) \<Rightarrow>
        (let line_lower = lower line in
         if list_ex (\<lambda>kw. contains kw line_lower) task_keywords then
           (let assignee = find_assignee attendees line line_lower;
                priority = line_priority line_lower
            in case line_due clk k line_lower of (due, k) \<Rightarrow>
                 (let desc = line_desc line
                  in (tasks @ [mk_Task (take 100 desc) assignee due priority], k)))
         else (tasks, k)))"

fun tasks_loop ::
  "clock \<Rightarrow> string list \<Rightarrow> string list \<Rightarrow> string Task list \<times> nat \<Rightarrow> string Task list \<times> nat"
where
  "tasks_loop clk attendees [] st = st"
| "tasks_loop clk attendees (line # lines) st =
     tasks_loop clk attendees lines (tasks_line clk attendees line st)"

text \<open>
  \<open>extract_tasks_fallback clk k transcript attendees\<close>: the tasks, and the number of clock
  readings made when it returns, \<open>k\<close> having been made before the call.
\<close>

definition extract_tasks_fallback ::
  "clock \<Rightarrow> nat \<Rightarrow> string \<Rightarrow> string list \<Rightarrow> string Task list \<times> nat" where
  "extract_tasks_fallback clk k transcript attendees =
     tasks_loop clk attendees (transcript_lines transcript) ([], k)"

subsection \<open>\<open>extract_decisions_fallback\<close>\<close>

definition decision_keywords :: "string list" where
  "decision_keywords = [''decided'', ''agreed'', ''approved'', ''confirmed'', ''will go with'',
                        ''final decision'']"

definition decisions_line :: "string \<Rightarrow> string list \<Rightarrow> string list" where
  "decisions_line line decisions =
     (if list_ex (\<lambda>kw. contains kw (lower line)) decision_keywords then
        (let content = (if CHR '':'' \<in> set line then strip (split1 (CHR '':'') line ! 1)
                        else strip line)
         in decisions @ [content])
      else decisions)"

fun decisions_loop :: "string list \<Rightarrow> string list \<Rightarrow> string list" where
  "decisions_loop [] decisions = decisions"
| "decisions_loop (line # lines) decisions = decisions_loop lines (decisions_line line decisions)"

definition extract_decisions_fallback :: "string \<Rightarrow> string list" where
  "extract_decisions_fallback transcript = decisions_loop (transcript_lines transcript) []"

subsection \<open>The fallback branch of the processing handler\<close>

text \<open>
  \<open>meeting.summary = extract_summary_fallback(transcript)\<close>,
  \<open>meeting.tasks = extract_tasks_fallback(transcript, attendees)\<close>,
  \<open>meeting.decisions = extract_decisions_fallback(transcript)\<close>: the three results, and the
  count of clock readings afterwards.
\<close>

definition process_fallback ::
  "clock \<Rightarrow> nat \<Rightarrow> (string list \<Rightarrow> string list) \<Rightarrow> string \<Rightarrow> string list
     \<Rightarrow> (string \<times> string Task list \<times> string list) \<times> nat" where
  "process_fallback clk k set_iter transcript attendees =
     (let summary = extract_summary_fallback set_iter transcript in
      case extract_tasks_fallback clk k transcript attendees of (tasks, k) \<Rightarrow>
        (let decisions = extract_decisions_fallback transcript
         in ((summary, tasks, decisions), k)))"

section \<open>The specification's vocabulary\<close>

text \<open>
  The notions the specification is worded in, defined apart from the code above so that the
  two can be compared: the newline-delimited segments of a transcript, the trigger phrases,
  the text after the first colon of a line, and the speaker label before it.
\<close>

definition raw_lines :: "string \<Rightarrow> string list" where
  "raw_lines tr = split_on (CHR ''\<newline>'') tr"

definition task_triggers :: "string set" where
  "task_triggers = {''will'', ''need to'', ''should'', ''action item'', ''todo'', ''task'',
                    ''follow up'', ''deadline''}"

definition is_task_line :: "string \<Rightarrow> bool" where
  "is_task_line line = (\<exists>kw \<in> task_triggers. contains kw (lower line))"

definition decision_triggers :: "string set" where
  "decision_triggers = {''decided'', ''agreed'', ''approved'', ''confirmed'', ''will go with'',
                        ''final decision''}"

definition is_decision_line :: "string \<Rightarrow> bool" where
  "is_decision_line line = (\<exists>kw \<in> decision_triggers. contains kw (lower line))"

definition text_after_colon :: "string \<Rightarrow> string" where
  "text_after_colon line =
     (if CHR '':'' \<in> set line then tl (dropWhile (\<lambda>c. c \<noteq> CHR '':'') line) else line)"

definition speaker_label :: "string \<Rightarrow> string" where
  "speaker_label line = takeWhile (\<lambda>c. c \<noteq> CHR '':'') line"

text \<open>The four topic keyword sets with their labels, and the labels a line contributes.\<close>

definition topic_table :: "(string set \<times> string) list" where
  "topic_table =
     [({''project'', ''update''}, ''Project Updates''),
      ({''deadline'', ''timeline''}, ''Timeline Discussion''),
      ({''budget'', ''cost''}, ''Budget Review''),
      ({''issue'', ''problem'', ''blocker''}, ''Blockers & Issues'')]"

definition line_topics :: "string \<Rightarrow> string set" where
  "line_topics line =
     (if CHR '':'' \<in> set line
      then snd ` {e \<in> set topic_table. \<exists>kw \<in> fst e. contains kw (lower (text_after_colon line))}
      else {})"

definition transcript_topics :: "string list \<Rightarrow> string set" where
  "transcript_topics ls = (\<Union>line \<in> set ls. line_topics line)"

text \<open>A fixed clock: every reading gives the same day.\<close>

definition fixed_clock :: "int \<Rightarrow> clock" where
  "fixed_clock today = (\<lambda>i. today)"

text \<open>
  A predicate and a function on lines that do not see white space at the two ends of a
  line; used to compare the lines of the trimmed transcript with those of the transcript.
\<close>

definition trim_blind :: "(string \<Rightarrow> bool) \<Rightarrow> (string \<Rightarrow> 'a) \<Rightarrow> bool" where
  "trim_blind P f \<longleftrightarrow>
     \<not> P [] \<and>
     (\<forall>c l. isspace c \<longrightarrow> P (c # l) = P l \<and> P (l @ [c]) = P l) \<and>
     (\<forall>c l. isspace c \<longrightarrow> P l \<longrightarrow> f (c # l) = f l \<and> f (l @ [c]) = f l)"

text \<open>The task \<open>tasks_line\<close> builds from a trigger line when the clock is fixed at \<open>today\<close>.\<close>

definition line_task :: "int \<Rightarrow> string list \<Rightarrow> string \<Rightarrow> string Task" where
  "line_task today atts line =
     mk_Task (take 100 (line_desc line)) (find_assignee atts line (lower line))
       (fst (line_due (fixed_clock today) 0 (lower line))) (line_priority (lower line))"

text \<open>A string with no white space at either end.\<close>

definition trimmed :: "string \<Rightarrow> bool" where
  "trimmed s \<longleftrightarrow> s = [] \<or> (\<not> isspace (hd s) \<and> \<not> isspace (last s))"


section \<open>The AI path\<close>

subsection \<open>Decoded JSON, exceptions, notices\<close>

text \<open>
  The Python values \<open>json.loads\<close> returns: \<open>None\<close>, booleans, integers, floats (a float is
  kept as its \<open>repr\<close>, which determines it), strings, lists and dictionaries (the items in
  insertion order, each key once).
\<close>

datatype json =
    JNull
  | JBool bool
  | JInt int
  | JFloat string
  | JString string
  | JArray "json list"
  | JObject "(string \<times> json) list"

text \<open>
  The exceptions of the model are those derived from \<open>Exception\<close>, each with its message
  \<open>str(e)\<close>: the decoder's \<open>JSONDecodeError\<close>, the interpreter's \<open>TypeError\<close> and
  \<open>AttributeError\<close>, and whatever the Gemini client raises (\<open>ServiceError\<close>).
\<close>

datatype exn =
    JSONDecodeError string
  | TypeError string
  | AttributeError string
  | ServiceError string

fun str_exn :: "exn \<Rightarrow> string" where
  "str_exn (JSONDecodeError m) = m"
| "str_exn (TypeError m) = m"
| "str_exn (AttributeError m) = m"
| "str_exn (ServiceError m) = m"

fun is_JSONDecodeError :: "exn \<Rightarrow> bool" where
  "is_JSONDecodeError (JSONDecodeError m) = True"
| "is_JSONDecodeError e = False"

text \<open>What the program shows through Streamlit: \<open>st.error\<close> and \<open>st.warning\<close>.\<close>

datatype notice = Error string | Warning string

fun type_name :: "json \<Rightarrow> string" where
  "type_name JNull = ''NoneType''"
| "type_name (JBool b) = ''bool''"
| "type_name (JInt i) = ''int''"
| "type_name (JFloat r) = ''float''"
| "type_name (JString s) = ''str''"
| "type_name (JArray xs) = ''list''"
| "type_name (JObject kvs) = ''dict''"

definition quoted :: "string \<Rightarrow> string" where
  "quoted s = [CHR 0x27] @ s @ [CHR 0x27]"

text \<open>\<open>for t in v\<close>: the elements iterated over, or the \<open>TypeError\<close> of a value that is not iterable.\<close>

fun py_iter :: "json \<Rightarrow> exn + json list" where
  "py_iter (JArray xs) = Inr xs"
| "py_iter (JString s) = Inr (map (\<lambda>c. JString [c]) s)"
| "py_iter (JObject kvs) = Inr (map (\<lambda>kv. JString (fst kv)) kvs)"
| "py_iter v = Inl (TypeError (quoted (type_name v) @ '' object is not iterable''))"

text \<open>\<open>bool(v)\<close>, as \<open>if v\<close> tests it.\<close>

fun py_bool :: "json \<Rightarrow> bool" where
  "py_bool JNull = False"
| "py_bool (JBool b) = b"
| "py_bool (JInt i) = (i \<noteq> 0)"
| "py_bool (JFloat r) = (r \<noteq> ''0.0'' \<and> r \<noteq> ''-0.0'')"
| "py_bool (JString s) = (s \<noteq> [])"
| "py_bool (JArray xs) = (xs \<noteq> [])"
| "py_bool (JObject kvs) = (kvs \<noteq> [])"

text \<open>\<open>d.get(key, default)\<close> on the items of a dictionary.\<close>

definition dict_get :: "(string \<times> json) list \<Rightarrow> string \<Rightarrow> json \<Rightarrow> json" where
  "dict_get kvs key dflt = (case map_of kvs key of Some v \<Rightarrow> v | None \<Rightarrow> dflt)"

text \<open>\<open>repr\<close> of a string, and \<open>repr\<close> and \<open>str\<close> of a decoded value, as an f-string formats it.\<close>

definition hex_digit :: "int \<Rightarrow> char" where
  "hex_digit n = (if n < 10 then char_of (48 + n) else char_of (87 + n))"

definition repr_char :: "char \<Rightarrow> char \<Rightarrow> string" where
  "repr_char q c =
     (let n = (of_char c :: int) in
      if c = q \<or> c = CHR 0x5C then [CHR 0x5C, c]
      else if n = 9 then [CHR 0x5C, CHR ''t'']
      else if n = 10 then [CHR 0x5C, CHR ''n'']
      else if n = 13 then [CHR 0x5C, CHR ''r'']
      else if n < 32 \<or> (127 \<le> n \<and> n \<le> 160) \<or> n = 173
      then [CHR 0x5C, CHR ''x'', hex_digit (n div 16), hex_digit (n mod 16)]
      else [c])"

definition repr_str :: "string \<Rightarrow> string" where
  "repr_str s =
     (let q = (if CHR 0x27 \<in> set s \<and> CHR 0x22 \<notin> set s then CHR 0x22 else CHR 0x27)
      in [q] @ concat (map (repr_char q) s) @ [q])"

fun py_repr :: "json \<Rightarrow> string" where
  "py_repr JNull = ''None''"
| "py_repr (JBool b) = (if b then ''True'' else ''False'')"
| "py_repr (JInt i) = str_int i"
| "py_repr (JFloat r) = r"
| "py_repr (JString s) = repr_str s"
| "py_repr (JArray xs) = ''['' @ join '', '' (map py_repr xs) @ '']''"
| "py_repr (JObject kvs) =
     ''{'' @ join '', '' (map (\<lambda>kv. repr_str (fst kv) @ '': '' @ py_repr (snd kv)) kvs) @ ''}''"

definition py_str :: "json \<Rightarrow> string" where
  "py_str v = (case v of JString s \<Rightarrow> s | _ \<Rightarrow> py_repr v)"

subsection \<open>The Gemini client\<close>

text \<open>
  The client library is outside the program. \<open>configure\<close> is \<open>genai.configure(api_key=...)\<close>:
  it returns or raises. \<open>generate_text name prompt\<close> stands for
  \<open>genai.GenerativeModel(name).generate_content(prompt).text\<close>: the text of the response, or
  the exception raised on the way (no network, a refused key, a blocked response). Nothing
  is assumed about either.
\<close>

record genai =
  configure :: "string \<Rightarrow> exn option"
  generate_text :: "string \<Rightarrow> string \<Rightarrow> exn + string"

definition init_gemini :: "genai \<Rightarrow> string \<Rightarrow> notice list \<Rightarrow> bool \<times> notice list" where
  "init_gemini env api_key ui =
     (case configure env api_key of
        None \<Rightarrow> (True, ui)
      | Some e \<Rightarrow> (False, ui @ [Error (''Failed to initialize Gemini: '' @ str_exn e)]))"

definition gemini_model :: string where
  "gemini_model = ''gemini-2.0-flash''"

subsection \<open>\<open>extract_summary_ai\<close>\<close>

definition summary_prompt :: "string \<Rightarrow> string" where
  \<open>summary_prompt transcript =
     ''Analyze this meeting transcript and provide a concise summary (2-3 sentences) covering the main topics discussed, key points, and overall meeting outcome.\<newline>''
     @ ''\<newline>''
     @ ''Meeting Transcript:\<newline>''
     @ transcript
     @ ''\<newline>''
     @ ''\<newline>''
     @ ''Provide only the summary, no additional formatting or labels.''\<close>

text \<open>
  The functions of the AI path return \<open>Inr\<close> a value when they return, and \<open>Inl\<close> an exception
  when one leaves them; the \<open>case\<close> on the outcome of the \<open>try\<close> body is the \<open>except\<close> clause.
\<close>

definition extract_summary_ai ::
  "genai \<Rightarrow> string \<Rightarrow> string \<Rightarrow> notice list \<Rightarrow> (exn + string) \<times> notice list" where
  "extract_summary_ai env transcript api_key ui =
     (case init_gemini env api_key ui of (ok, ui) \<Rightarrow>
        (let prompt = summary_prompt transcript in
         case generate_text env gemini_model prompt of
           Inr text \<Rightarrow> (Inr (strip text), ui)
         | Inl e \<Rightarrow> (Inr (''Error generating summary: '' @ str_exn e), ui)))"

subsection \<open>\<open>extract_tasks_ai\<close>\<close>

definition tasks_prompt :: "string \<Rightarrow> string \<Rightarrow> string \<Rightarrow> string" where
  \<open>tasks_prompt transcript attendees_str today =
     ''Analyze this meeting transcript and extract all action items/tasks.\<newline>''
     @ ''\<newline>''
     @ ''Meeting Transcript:\<newline>''
     @ transcript
     @ ''\<newline>''
     @ ''\<newline>''
     @ ''Attendees: ''
     @ attendees_str
     @ ''\<newline>''
     @ ''Today's Date: ''
     @ today
     @ ''\<newline>''
     @ ''\<newline>''
     @ ''Return a JSON array of tasks. Each task should have:\<newline>''
     @ ''- "description": clear task description\<newline>''
     @ ''- "assignee": person responsible (from attendees list, or "Unassigned")\<newline>''
     @ ''- "due_date": in YYYY-MM-DD format (estimate based on context, default 7 days from today)\<newline>''
     @ ''- "priority": "High", "Medium", or "Low" based on urgency\<newline>''
     @ ''\<newline>''
     @ ''Return ONLY valid JSON array, no markdown, no explanation. Example:\<newline>''
     @ ''[{"description": "Complete report", "assignee": "Alice", "due_date": "2024-01-15", "priority": "High"}]\<newline>''
     @ ''\<newline>''
     @ ''If no tasks found, return: []''\<close>

text \<open>
  \<open>re.sub(r'^```json\s*', '', s)\<close>: the pattern can match at the start only, and takes the
  marker with all the white space after it.
\<close>

definition sub_fence_start :: "string \<Rightarrow> string" where
  "sub_fence_start s = (if startswith s ''```json'' then dropWhile isspace (drop 7 s) else s)"

text \<open>
  \<open>re.sub(r'\s*```$', '', s)\<close>: \<open>$\<close> matches at the end of the string and before a newline
  that ends it; the leftmost match starts at the white space before the three backquotes.
\<close>

definition endswith :: "string \<Rightarrow> string \<Rightarrow> bool" where
  "endswith s p = startswith (rev s) (rev p)"

definition sub_fence_end :: "string \<Rightarrow> string" where
  "sub_fence_end s =
     (if endswith s ''```'' then rstrip (take (length s - 3) s)
      else if endswith s (''```'' @ [CHR ''\<newline>''])
      then rstrip (take (length s - 4) s) @ [CHR ''\<newline>'']
      else s)"

text \<open>
  One round of \<open>for t in tasks_data\<close>. \<open>t.get\<close> is looked up before its arguments are
  evaluated, so an element that is not a dictionary raises before the clock is read.
\<close>

definition ai_task_of :: "clock \<Rightarrow> nat \<Rightarrow> json \<Rightarrow> (exn + json Task) \<times> nat" where
  "ai_task_of clk k t =
     (case t of
        JObject kvs \<Rightarrow>
          (case now clk k of (d, k) \<Rightarrow>
             (Inr (mk_Task (dict_get kvs ''description'' (JString []))
                     (dict_get kvs ''assignee'' (JString ''Unassigned''))
                     (dict_get kvs ''due_date'' (JString (strftime_ymd (d + 7))))
                     (dict_get kvs ''priority'' (JString ''Medium''))), k))
      | _ \<Rightarrow> (Inl (AttributeError (quoted (type_name t) @ '' object has no attribute ''
                                     @ quoted ''get'')), k))"

fun ai_tasks_loop ::
  "clock \<Rightarrow> json list \<Rightarrow> json Task list \<Rightarrow> nat \<Rightarrow> (exn + json Task list) \<times> nat" where
  "ai_tasks_loop clk [] tasks k = (Inr tasks, k)"
| "ai_tasks_loop clk (t # ts) tasks k =
     (case ai_task_of clk k t of
        (Inl e, k) \<Rightarrow> (Inl e, k)
      | (Inr task, k) \<Rightarrow> ai_tasks_loop clk ts (tasks @ [task]) k)"

text \<open>The \<open>try\<close> body after the prompt is built, from the response on.\<close>

definition tasks_of_response ::
  "(string \<Rightarrow> exn + json) \<Rightarrow> clock \<Rightarrow> nat \<Rightarrow> string \<Rightarrow> (exn + json Task list) \<times> nat" where
  "tasks_of_response loads clk k text =
     (let response_text = strip text;
          response_text = sub_fence_start response_text;
          response_text = sub_fence_end response_text
      in case loads response_text of
           Inl e \<Rightarrow> (Inl e, k)
         | Inr tasks_data \<Rightarrow>
             (case py_iter tasks_data of
                Inl e \<Rightarrow> (Inl e, k)
              | Inr ts \<Rightarrow> ai_tasks_loop clk ts [] k))"

text \<open>
  \<open>loads\<close> is \<open>json.loads\<close>, a parameter: the decoded value, or the exception raised
  (\<open>JSONDecodeError\<close> on a text that is not JSON).
\<close>

definition extract_tasks_ai ::
  "genai \<Rightarrow> (string \<Rightarrow> exn + json) \<Rightarrow> clock \<Rightarrow> nat \<Rightarrow> string \<Rightarrow> string list \<Rightarrow> string
     \<Rightarrow> notice list \<Rightarrow> (exn + json Task list) \<times> notice list \<times> nat" where
  "extract_tasks_ai env loads clk k transcript attendees api_key ui =
     (case init_gemini env api_key ui of (ok, ui) \<Rightarrow>
        (let attendees_str = join '', '' attendees in
         case now clk k of (d, k) \<Rightarrow>
           (let today = strftime_ymd d;
                prompt = tasks_prompt transcript attendees_str today
            in case (case generate_text env gemini_model prompt of
                       Inl e \<Rightarrow> (Inl e, k)
                     | Inr text \<Rightarrow> tasks_of_response loads clk k text) of
                 (Inr tasks, k) \<Rightarrow> (Inr tasks, ui, k)
               | (Inl e, k) \<Rightarrow>
                   (if is_JSONDecodeError e then (Inr [], ui, k)
                    else (Inr [], ui @ [Warning (''Task extraction error: '' @ str_exn e)], k)))))"

subsection \<open>\<open>extract_decisions_ai\<close>\<close>

definition decisions_prompt :: "string \<Rightarrow> string" where
  \<open>decisions_prompt transcript =
     ''Analyze this meeting transcript and extract all key decisions that were made.\<newline>''
     @ ''\<newline>''
     @ ''Meeting Transcript:\<newline>''
     @ transcript
     @ ''\<newline>''
     @ ''\<newline>''
     @ ''Return a JSON array of decision strings. Each decision should be a clear, concise statement.\<newline>''
     @ ''Return ONLY valid JSON array, no markdown, no explanation. Example:\<newline>''
     @ ''["Approved Q4 budget", "Decided to use new vendor"]\<newline>''
     @ ''\<newline>''
     @ ''If no decisions found, return: []''\<close>

definition extract_decisions_ai ::
  "genai \<Rightarrow> (string \<Rightarrow> exn + json) \<Rightarrow> string \<Rightarrow> string \<Rightarrow> notice list
     \<Rightarrow> (exn + json) \<times> notice list" where
  "extract_decisions_ai env loads transcript api_key ui =
     (case init_gemini env api_key ui of (ok, ui) \<Rightarrow>
        (let prompt = decisions_prompt transcript in
         case (case generate_text env gemini_model prompt of
                 Inl e \<Rightarrow> Inl e
               | Inr text \<Rightarrow>
                   (let response_text = strip text;
                        response_text = sub_fence_start response_text;
                        response_text = sub_fence_end response_text
                    in loads response_text)) of
           Inr v \<Rightarrow> (Inr v, ui)
         | Inl e \<Rightarrow> (Inr (JArray []), ui)))"

subsection \<open>A decoder for plain JSON\<close>

text \<open>
  \<open>json.loads\<close> is a parameter of the model. \<open>json_loads_plain\<close> is an instance of it for the
  examples: it decodes the JSON texts whose strings have no escape sequence and whose numbers
  are integers, to the value \<open>json.loads\<close> gives them, and reports a decoding error on every
  other text. \<open>dict_set\<close> is the assignment \<open>d[key] = v\<close>, by which a repeated key keeps its
  place and takes the last value.
\<close>

definition json_ws :: "char \<Rightarrow> bool" where
  "json_ws c = (c = CHR '' '' \<or> c = CHR 0x09 \<or> c = CHR 0x0A \<or> c = CHR 0x0D)"

definition dict_set :: "(string \<times> json) list \<Rightarrow> string \<Rightarrow> json \<Rightarrow> (string \<times> json) list" where
  "dict_set kvs key v =
     (if key \<in> fst ` set kvs then map (\<lambda>kv. if fst kv = key then (key, v) else kv) kvs
      else kvs @ [(key, v)])"

fun plain_string :: "string \<Rightarrow> (string \<times> string) option" where
  "plain_string [] = None"
| "plain_string (c # cs) =
     (if c = CHR 0x22 then Some ([], cs)
      else if c = CHR 0x5C \<or> (of_char c :: int) < 32 then None
      else map_option (\<lambda>p. (c # fst p, snd p)) (plain_string cs))"

definition is_digit :: "char \<Rightarrow> bool" where
  "is_digit c = (48 \<le> (of_char c :: int) \<and> (of_char c :: int) \<le> 57)"

definition plain_int :: "string \<Rightarrow> (json \<times> string) option" where
  "plain_int s =
     (let neg = startswith s ''-'';
          s1 = (if neg then drop 1 s else s);
          ds = takeWhile is_digit s1;
          r = dropWhile is_digit s1;
          n = foldl (\<lambda>a c. 10 * a + (of_char c - 48)) (0 :: int) ds
      in if ds = [] \<or> (1 < length ds \<and> startswith ds ''0'')
            \<or> startswith r ''.'' \<or> startswith r ''e'' \<or> startswith r ''E''
         then None
         else Some (JInt (if neg then - n else n), r))"

text \<open>An item of a list or of a dictionary, with the character that follows it.\<close>

definition plain_elem ::
  "(string \<Rightarrow> (json \<times> string) option) \<Rightarrow> string \<Rightarrow> (json \<times> char \<times> string) option" where
  "plain_elem rec s =
     (case rec s of
        None \<Rightarrow> None
      | Some (v, r) \<Rightarrow>
          (case dropWhile json_ws r of [] \<Rightarrow> None | c # r' \<Rightarrow> Some (v, c, r')))"

definition plain_member ::
  "(string \<Rightarrow> (json \<times> string) option) \<Rightarrow> string \<Rightarrow> (string \<times> json \<times> char \<times> string) option" where
  "plain_member rec s =
     (case dropWhile json_ws s of
        [] \<Rightarrow> None
      | c # cs \<Rightarrow>
          if c \<noteq> CHR 0x22 then None
          else (case plain_string cs of
                  None \<Rightarrow> None
                | Some (key, r) \<Rightarrow>
                    (case dropWhile json_ws r of
                       [] \<Rightarrow> None
                     | c1 # r1 \<Rightarrow>
                         if c1 \<noteq> CHR '':'' then None
                         else map_option (\<lambda>p. (key, p)) (plain_elem rec r1))))"

fun plain_elems ::
  "(string \<Rightarrow> (json \<times> string) option) \<Rightarrow> nat \<Rightarrow> json list \<Rightarrow> string \<Rightarrow> (json \<times> string) option"
where
  "plain_elems rec 0 acc s = None"
| "plain_elems rec (Suc m) acc s =
     (case plain_elem rec s of
        None \<Rightarrow> None
      | Some (v, c, r) \<Rightarrow>
          if c = CHR '','' then plain_elems rec m (acc @ [v]) r
          else if c = CHR '']'' then Some (JArray (acc @ [v]), r)
          else None)"

fun plain_members ::
  "(string \<Rightarrow> (json \<times> string) option) \<Rightarrow> nat \<Rightarrow> (string \<times> json) list \<Rightarrow> string
     \<Rightarrow> (json \<times> string) option"
where
  "plain_members rec 0 acc s = None"
| "plain_members rec (Suc m) acc s =
     (case plain_member rec s of
        None \<Rightarrow> None
      | Some (key, v, c, r) \<Rightarrow>
          if c = CHR '','' then plain_members rec m (dict_set acc key v) r
          else if c = CHR ''}'' then Some (JObject (dict_set acc key v), r)
          else None)"

definition plain_value_step ::
  "(string \<Rightarrow> (json \<times> string) option) \<Rightarrow> string \<Rightarrow> (json \<times> string) option" where
  "plain_value_step rec s =
     (let s1 = dropWhile json_ws s in
      if startswith s1 ''['' then
        (if startswith (dropWhile json_ws (drop 1 s1)) '']''
         then Some (JArray [], drop 1 (dropWhile json_ws (drop 1 s1)))
         else plain_elems rec (length s1) [] (drop 1 s1))
      else if startswith s1 ''{'' then
        (if startswith (dropWhile json_ws (drop 1 s1)) ''}''
         then Some (JObject [], drop 1 (dropWhile json_ws (drop 1 s1)))
         else plain_members rec (length s1) [] (drop 1 s1))
      else if startswith s1 [CHR 0x22] then
        map_option (\<lambda>p. (JString (fst p), snd p)) (plain_string (drop 1 s1))
      else if startswith s1 ''true'' then Some (JBool True, drop 4 s1)
      else if startswith s1 ''false'' then Some (JBool False, drop 5 s1)
      else if startswith s1 ''null'' then Some (JNull, drop 4 s1)
      else plain_int s1)"

primrec plain_value :: "nat \<Rightarrow> string \<Rightarrow> (json \<times> string) option" where
  "plain_value 0 = (\<lambda>s. None)"
| "plain_value (Suc n) = plain_value_step (plain_value n)"

definition json_loads_plain :: "string \<Rightarrow> exn + json" where
  "json_loads_plain s =
     (case plain_value (Suc (length s)) s of
        None \<Rightarrow> Inl (JSONDecodeError ''Expecting value'')
      | Some (v, r) \<Rightarrow>
          if dropWhile json_ws r = [] then Inr v else Inl (JSONDecodeError ''Extra data''))"

section \<open>Saved meetings\<close>

text \<open>
  \<open>Meeting\<close> is polymorphic in the types of \<open>tasks\<close> and \<open>decisions\<close>, which the AI path
  fills from decoded JSON.
\<close>

record ('t, 'd) Meeting =
  id_m :: string
  title :: string
  date :: string
  duration :: int
  attendees :: "string list"
  transcript :: string
  summary :: string
  tasks :: 't
  action_items :: "string list"
  decisions :: 'd

text \<open>
  The save handler: \<open>existing = [m for m in meetings if m.id != meeting.id]\<close>,
  \<open>existing.append(meeting)\<close>, \<open>meetings = existing\<close>. The store is the list
  \<open>st.session_state.meetings\<close>; listing it is reading that list.
\<close>

definition upsert :: "('t, 'd) Meeting list \<Rightarrow> ('t, 'd) Meeting \<Rightarrow> ('t, 'd) Meeting list" where
  "upsert meetings meeting = filter (\<lambda>m. id_m m \<noteq> id_m meeting) meetings @ [meeting]"

definition list_meetings :: "('t, 'd) Meeting list \<Rightarrow> ('t, 'd) Meeting list" where
  "list_meetings meetings = meetings"

text \<open>The store after saving the meetings \<open>ms\<close> one after the other, starting from \<open>s\<close>.\<close>

fun upsert_all :: "('t, 'd) Meeting list \<Rightarrow> ('t, 'd) Meeting list \<Rightarrow> ('t, 'd) Meeting list" where
  "upsert_all s [] = s"
| "upsert_all s (m # ms) = upsert_all (upsert s m) ms"

definition example_meeting :: "string \<Rightarrow> string \<Rightarrow> (unit, unit) Meeting" where
  "example_meeting i t =
     \<lparr>id_m = i, title = t, date = ''2024-01-15'', duration = 30, attendees = [''Alice''],
      transcript = [], summary = [], tasks = (), action_items = [], decisions = ()\<rparr>"

subsection \<open>\<open>generate_followup_email_ai\<close>\<close>

text \<open>
  A meeting that reaches the AI functions holds a list of tasks, their fields filled by
  either path (a string being \<open>JString\<close>), and as decisions whatever \<open>extract_decisions_ai\<close>
  or the fallback returned.
\<close>

type_synonym ai_meeting = "(json Task list, json) Meeting"

definition task_line :: "json Task \<Rightarrow> string" where
  \<open>task_line t =
     ''- '' @ py_str (description t) @ '' (Assignee: '' @ py_str (assignee t)
       @ '', Due: '' @ py_str (due_date t) @ '', Priority: '' @ py_str (priority t)
       @ '')\<newline>''\<close>

definition email_prompt :: "ai_meeting \<Rightarrow> string \<Rightarrow> string \<Rightarrow> string" where
  \<open>email_prompt meeting tasks_str decisions_str =
     ''Generate a professional follow-up email for this meeting:\<newline>''
     @ ''\<newline>''
     @ ''Meeting Title: ''
     @ title meeting
     @ ''\<newline>''
     @ ''Date: ''
     @ date meeting
     @ ''\<newline>''
     @ ''Attendees: ''
     @ join '', '' (attendees meeting)
     @ ''\<newline>''
     @ ''Summary: ''
     @ summary meeting
     @ ''\<newline>''
     @ ''Decisions: ''
     @ decisions_str
     @ ''\<newline>''
     @ ''Action Items: ''
     @ (if tasks_str \<noteq> [] then tasks_str else ''None'')
     @ ''\<newline>''
     @ ''\<newline>''
     @ ''Create a well-formatted, professional email that:\<newline>''
     @ ''1. Thanks attendees\<newline>''
     @ ''2. Summarizes key discussion points\<newline>''
     @ ''3. Lists decisions made\<newline>''
     @ ''4. Lists action items with assignees and due dates\<newline>''
     @ ''5. Ends with a professional closing\<newline>''
     @ ''\<newline>''
     @ ''Make it concise but comprehensive.''\<close>

text \<open>
  \<open>decisions_str\<close>: the comprehension iterates over \<open>meeting.decisions\<close> when it is true, and
  raises when it is true and not iterable.
\<close>

definition decisions_text :: "json \<Rightarrow> exn + string" where
  "decisions_text ds =
     (if py_bool ds then
        (case py_iter ds of
           Inl e \<Rightarrow> Inl e
         | Inr xs \<Rightarrow> Inr (join [CHR ''\<newline>''] (map (\<lambda>d. ''- '' @ py_str d) xs)))
      else Inr ''None'')"

definition generate_followup_email_ai ::
  "genai \<Rightarrow> ai_meeting \<Rightarrow> string \<Rightarrow> notice list \<Rightarrow> (exn + string) \<times> notice list" where
  "generate_followup_email_ai env meeting api_key ui =
     (case init_gemini env api_key ui of (ok, ui) \<Rightarrow>
        (let tasks_str = (if tasks meeting \<noteq> [] then concat (map task_line (tasks meeting))
                          else [])
         in case (case decisions_text (decisions meeting) of
                    Inl e \<Rightarrow> Inl e
                  | Inr decisions_str \<Rightarrow>
                      (let prompt = email_prompt meeting tasks_str decisions_str in
                       case generate_text env gemini_model prompt of
                         Inl e \<Rightarrow> Inl e
                       | Inr text \<Rightarrow> Inr (strip text))) of
              Inr email \<Rightarrow> (Inr email, ui)
            | Inl e \<Rightarrow> (Inr (''Error generating email: '' @ str_exn e), ui)))"

subsection \<open>The AI branch of the processing handler\<close>

text \<open>
  \<open>meeting.transcript = transcript\<close>, then the three AI functions in turn, each result stored
  in the meeting; an exception leaving one of them would leave the handler.
\<close>

definition process_ai ::
  "genai \<Rightarrow> (string \<Rightarrow> exn + json) \<Rightarrow> clock \<Rightarrow> nat \<Rightarrow> string \<Rightarrow> string list \<Rightarrow> string
     \<Rightarrow> ai_meeting \<Rightarrow> notice list \<Rightarrow> (exn + ai_meeting) \<times> notice list \<times> nat" where
  "process_ai env loads clk k tr atts api_key meeting ui =
     (let meeting = meeting\<lparr>transcript := tr\<rparr> in
      case extract_summary_ai env tr api_key ui of
        (Inl e, ui) \<Rightarrow> (Inl e, ui, k)
      | (Inr s, ui) \<Rightarrow>
          (let meeting = meeting\<lparr>summary := s\<rparr> in
           case extract_tasks_ai env loads clk k tr atts api_key ui of
             (Inl e, ui, k) \<Rightarrow> (Inl e, ui, k)
           | (Inr ts, ui, k) \<Rightarrow>
               (let meeting = meeting\<lparr>tasks := ts\<rparr> in
                case extract_decisions_ai env loads tr api_key ui of
                  (Inl e, ui) \<Rightarrow> (Inl e, ui, k)
                | (Inr ds, ui) \<Rightarrow> (Inr (meeting\<lparr>decisions := ds\<rparr>), ui, k))))"

subsection \<open>The response as it reaches the decoder\<close>

text \<open>What \<open>extract_tasks_ai\<close> passes to \<open>json.loads\<close>, as a function of the text of the response.\<close>

definition clean_response :: "string \<Rightarrow> string" where
  "clean_response text = sub_fence_end (sub_fence_start (strip text))"

text \<open>The outcome of the \<open>try\<close> body of \<open>extract_tasks_ai\<close>, with the count of clock readings.\<close>

definition tasks_try :: "genai \<Rightarrow> (string \<Rightarrow> exn + json) \<Rightarrow> clock \<Rightarrow> nat \<Rightarrow> string \<Rightarrow> string list
    \<Rightarrow> (exn + json Task list) \<times> nat" where
  "tasks_try env loads clk k tr atts =
     (case generate_text env gemini_model
             (tasks_prompt tr (join '', '' atts) (strftime_ymd (clk k))) of
        Inl e \<Rightarrow> (Inl e, Suc k)
      | Inr text \<Rightarrow> tasks_of_response loads clk (Suc k) text)"

text \<open>A client that accepts every key and answers every prompt with the same text, or fails.\<close>

definition answering :: "string \<Rightarrow> genai" where
  "answering text = \<lparr>configure = (\<lambda>key. None), generate_text = (\<lambda>name prompt. Inr text)\<rparr>"

definition failing :: "exn \<Rightarrow> genai" where
  "failing e = \<lparr>configure = (\<lambda>key. Some e), generate_text = (\<lambda>name prompt. Inl e)\<rparr>"

definition example_ai_meeting :: "json Task list \<Rightarrow> json \<Rightarrow> ai_meeting" where
  "example_ai_meeting ts ds =
     \<lparr>id_m = ''20240115093000'', title = ''Stand-up'', date = ''2024-01-15'', duration = 30,
      attendees = [''Alice'', ''Bob''], transcript = [], summary = ''Short meeting.'',
      tasks = ts, action_items = [], decisions = ds\<rparr>"

section \<open>Strings: properties\<close>

lemma split_on_not_Nil: "split_on c s \<noteq> []"
  by (induction s) (auto split: list.splits)

lemma split_on_first: "split_on c s ! 0 = takeWhile (\<lambda>x. x \<noteq> c) s"
  by (induction s) (auto split: list.splits simp: split_on_not_Nil)

lemma split1_found:
  "c \<in> set s \<Longrightarrow> split1 c s = [takeWhile (\<lambda>x. x \<noteq> c) s, tl (dropWhile (\<lambda>x. x \<noteq> c) s)]"
  by (induction s) auto

lemma split1_after: "c \<in> set s \<Longrightarrow> split1 c s ! Suc 0 = tl (dropWhile (\<lambda>x. x \<noteq> c) s)"
  by (simp add: split1_found)

lemma startswith_iff: "startswith s p \<longleftrightarrow> (\<exists>b. s = p @ b)"
  by (induction s p rule: startswith.induct) auto

lemma contains_iff: "contains p s \<longleftrightarrow> (\<exists>a b. s = a @ p @ b)"
proof (induction s)
  case Nil
  show ?case by auto
next
  case (Cons c cs)
  show ?case
  proof
    assume "contains p (c # cs)"
    then consider "startswith (c # cs) p" | "contains p cs" by auto
    then show "\<exists>a b. c # cs = a @ p @ b"
    proof cases
      case 1
      then obtain b where "c # cs = p @ b" by (auto simp: startswith_iff)
      then have "c # cs = [] @ p @ b" by simp
      then show ?thesis by blast
    next
      case 2
      then obtain a b where "cs = a @ p @ b" using Cons.IH by auto
      then have "c # cs = (c # a) @ p @ b" by simp
      then show ?thesis by blast
    qed
  next
    assume "\<exists>a b. c # cs = a @ p @ b"
    then obtain a b where eq: "c # cs = a @ p @ b" by auto
    show "contains p (c # cs)"
    proof (cases a)
      case Nil
      with eq have "startswith (c # cs) p" by (auto simp: startswith_iff)
      then show ?thesis by simp
    next
      case (Cons x a')
      with eq have "cs = a' @ p @ b" by simp
      then have "contains p cs" using Cons.IH by auto
      then show ?thesis by simp
    qed
  qed
qed

lemma contains_append_left: "contains p s \<Longrightarrow> contains p (a @ s)"
  by (metis append.assoc contains_iff)

lemma contains_append_right: "contains p s \<Longrightarrow> contains p (s @ b)"
  by (metis append.assoc contains_iff)

lemma contains_rev: "contains (rev p) (rev s) = contains p s"
proof -
  have "(\<exists>a b. rev s = a @ rev p @ b) \<longleftrightarrow> (\<exists>a b. s = a @ p @ b)"
  proof
    assume "\<exists>a b. rev s = a @ rev p @ b"
    then obtain a b where "rev s = a @ rev p @ b" by auto
    then have "rev (rev s) = rev (a @ rev p @ b)" by simp
    then have "s = rev b @ p @ rev a" by simp
    then show "\<exists>a b. s = a @ p @ b" by blast
  next
    assume "\<exists>a b. s = a @ p @ b"
    then obtain a b where "s = a @ p @ b" by auto
    then have "rev s = rev b @ rev p @ rev a" by simp
    then show "\<exists>a b. rev s = a @ rev p @ b" by blast
  qed
  then show ?thesis by (simp add: contains_iff)
qed

lemma contains_lower_prefix:
  "contains p (lower (takeWhile P l)) \<Longrightarrow> contains p (lower l)"
proof -
  assume h: "contains p (lower (takeWhile P l))"
  have "lower l = lower (takeWhile P l) @ lower (dropWhile P l)"
    unfolding lower_def by (metis map_append takeWhile_dropWhile_id)
  with h show ?thesis by (simp add: contains_append_right)
qed

lemma isspace_lower_char: "isspace (lower_char c) = isspace c"
  unfolding isspace_def lower_char_def Let_def by auto

lemma contains_space_Cons:
  assumes "isspace c" "p \<noteq> []" "\<not> isspace (hd p)"
  shows "contains p (c # s) = contains p s"
proof -
  from assms have "\<not> startswith (c # s) p" by (cases p) auto
  then show ?thesis by simp
qed

lemma contains_lstrip:
  assumes "p \<noteq> []" "\<not> isspace (hd p)"
  shows "contains p (dropWhile isspace s) = contains p s"
  using assms by (induction s) (simp_all add: contains_space_Cons del: contains.simps)

lemma contains_rstrip:
  assumes "p \<noteq> []" "\<not> isspace (last p)"
  shows "contains p (rstrip s) = contains p s"
proof -
  have "contains p (rstrip s) = contains (rev p) (dropWhile isspace (rev s))"
    unfolding rstrip_def using contains_rev [of p "rev (dropWhile isspace (rev s))"] by simp
  also have "\<dots> = contains (rev p) (rev s)"
    using assms by (intro contains_lstrip) (simp_all add: hd_rev)
  finally show ?thesis by (simp add: contains_rev)
qed

lemma contains_strip:
  assumes "p \<noteq> []" "\<not> isspace (hd p)" "\<not> isspace (last p)"
  shows "contains p (strip s) = contains p s"
  using assms by (simp add: strip_def lstrip_def contains_rstrip contains_lstrip)

lemma lower_strip: "lower (strip s) = strip (lower s)"
proof -
  have d: "map lower_char (dropWhile isspace xs) = dropWhile isspace (map lower_char xs)" for xs
    by (induction xs) (simp_all add: isspace_lower_char)
  show ?thesis
    unfolding strip_def lstrip_def rstrip_def lower_def
    by (simp add: d rev_map [symmetric])
qed

lemma split_on_snoc:
  "split_on c (s @ [x]) =
     (if x = c then split_on c s @ [[]]
      else butlast (split_on c s) @ [last (split_on c s) @ [x]])"
proof (induction s)
  case Nil
  show ?case by simp
next
  case (Cons y ys)
  obtain l ls where eq: "split_on c ys = l # ls"
    using split_on_not_Nil [of c ys] by (cases "split_on c ys") auto
  show ?case
    using Cons.IH eq by (auto split: list.splits simp: split_on_not_Nil)
qed

lemma isspace_newline: "isspace (CHR ''\<newline>'')"
  by (simp add: isspace_def)

lemma lines_lstrip:
  assumes "trim_blind P f"
  shows "map f (filter P (split_on (CHR ''\<newline>'') (dropWhile isspace s)))
         = map f (filter P (split_on (CHR ''\<newline>'') s))"
proof (induction s)
  case Nil
  show ?case by simp
next
  case (Cons c cs)
  show ?case
  proof (cases "isspace c")
    case False
    then show ?thesis by simp
  next
    case True
    obtain l ls where eq: "split_on (CHR ''\<newline>'') cs = l # ls"
      using split_on_not_Nil [of "CHR ''\<newline>''" cs] by (cases "split_on (CHR ''\<newline>'') cs") auto
    have "map f (filter P (split_on (CHR ''\<newline>'') (c # cs)))
          = map f (filter P (split_on (CHR ''\<newline>'') cs))"
      using assms True eq unfolding trim_blind_def by auto
    with True Cons.IH show ?thesis by simp
  qed
qed

lemma lines_rstrip:
  assumes "trim_blind P f"
  shows "map f (filter P (split_on (CHR ''\<newline>'') (rstrip s)))
         = map f (filter P (split_on (CHR ''\<newline>'') s))"
proof (induction s rule: rev_induct)
  case Nil
  show ?case by (simp add: rstrip_def)
next
  case (snoc c cs)
  show ?case
  proof (cases "isspace c")
    case False
    then show ?thesis by (simp add: rstrip_def)
  next
    case True
    then have r: "rstrip (cs @ [c]) = rstrip cs" by (simp add: rstrip_def)
    obtain bs la where ls: "split_on (CHR ''\<newline>'') cs = bs @ [la]"
      using split_on_not_Nil [of "CHR ''\<newline>''" cs] by (metis append_butlast_last_id)
    have P: "P (la @ [c]) = P la" and f: "P la \<Longrightarrow> f (la @ [c]) = f la" and e: "\<not> P []"
      using assms True unfolding trim_blind_def by auto
    have "map f (filter P (split_on (CHR ''\<newline>'') (cs @ [c])))
          = map f (filter P (split_on (CHR ''\<newline>'') cs))"
      unfolding split_on_snoc ls using P f e by simp
    with snoc.IH r show ?thesis by simp
  qed
qed

lemma lines_strip:
  assumes "trim_blind P f"
  shows "map f (filter P (transcript_lines s)) = map f (filter P (raw_lines s))"
  unfolding transcript_lines_def raw_lines_def strip_def lstrip_def
  by (simp add: lines_rstrip [OF assms] lines_lstrip [OF assms])

lemma contains_space_snoc:
  assumes "isspace c" "p \<noteq> []" "\<not> isspace (last p)"
  shows "contains p (s @ [c]) = contains p s"
proof -
  have "contains p (s @ [c]) = contains (rev p) (c # rev s)"
    using contains_rev [of p "s @ [c]"] by simp
  also have "\<dots> = contains (rev p) (rev s)"
    using assms by (intro contains_space_Cons) (simp_all add: hd_rev)
  finally show ?thesis by (simp add: contains_rev)
qed

lemma lower_Cons: "lower (c # s) = lower_char c # lower s"
  by (simp add: lower_def)

lemma lower_snoc: "lower (s @ [c]) = lower s @ [lower_char c]"
  by (simp add: lower_def)

lemma trigger_trim:
  assumes "isspace c" "p \<noteq> []" "\<not> isspace (hd p)" "\<not> isspace (last p)"
  shows "contains p (lower (c # l)) = contains p (lower l)"
    and "contains p (lower (l @ [c])) = contains p (lower l)"
  using assms
  by (simp_all add: lower_Cons lower_snoc contains_space_Cons contains_space_snoc
      isspace_lower_char del: contains.simps)

lemma task_triggers_solid:
  "kw \<in> task_triggers \<Longrightarrow> kw \<noteq> [] \<and> \<not> isspace (hd kw) \<and> \<not> isspace (last kw)"
  unfolding task_triggers_def isspace_def by auto

lemma decision_triggers_solid:
  "kw \<in> decision_triggers \<Longrightarrow> kw \<noteq> [] \<and> \<not> isspace (hd kw) \<and> \<not> isspace (last kw)"
  unfolding decision_triggers_def isspace_def by auto

lemma is_task_line_trim:
  assumes "isspace c"
  shows "is_task_line (c # l) = is_task_line l" and "is_task_line (l @ [c]) = is_task_line l"
  unfolding is_task_line_def
  using trigger_trim [OF assms] task_triggers_solid by (metis, metis)

lemma is_decision_line_trim:
  assumes "isspace c"
  shows "is_decision_line (c # l) = is_decision_line l"
    and "is_decision_line (l @ [c]) = is_decision_line l"
  unfolding is_decision_line_def
  using trigger_trim [OF assms] decision_triggers_solid by (metis, metis)

lemma contains_Nil: "contains p [] = (p = [])"
  by simp

lemma not_is_task_line_Nil: "\<not> is_task_line []"
  unfolding is_task_line_def using task_triggers_solid by (auto simp: lower_def)

lemma not_is_decision_line_Nil: "\<not> is_decision_line []"
  unfolding is_decision_line_def using decision_triggers_solid by (auto simp: lower_def)

lemma isspace_not_colon: "isspace c \<Longrightarrow> c \<noteq> CHR '':''"
  by (auto simp: isspace_def)

lemma strip_space_Cons: "isspace c \<Longrightarrow> strip (c # l) = strip l"
  by (simp add: strip_def lstrip_def)

lemma dropWhile_all: "\<forall>x \<in> set l. P x \<Longrightarrow> dropWhile P l = []"
  by (induction l) simp_all

lemma strip_space_snoc: "isspace c \<Longrightarrow> strip (l @ [c]) = strip l"
proof -
  assume c: "isspace c"
  show ?thesis
  proof (cases "\<forall>x \<in> set l. isspace x")
    case True
    have 1: "dropWhile isspace l = []"
      using True by (rule dropWhile_all)
    have "\<forall>x \<in> set (l @ [c]). isspace x"
      using True c by auto
    then have 2: "dropWhile isspace (l @ [c]) = []"
      by (rule dropWhile_all)
    show ?thesis
      unfolding strip_def lstrip_def rstrip_def 1 2 ..
  next
    case False
    then obtain x where "x \<in> set l" and "\<not> isspace x" by auto
    then have "dropWhile isspace (l @ [c]) = dropWhile isspace l @ [c]"
      by (rule dropWhile_append1)
    then show ?thesis using c by (simp add: strip_def lstrip_def rstrip_def)
  qed
qed

lemma text_after_colon_trim:
  assumes "isspace c"
  shows "strip (text_after_colon (c # l)) = strip (text_after_colon l)"
    and "strip (text_after_colon (l @ [c])) = strip (text_after_colon l)"
proof -
  have nc: "c \<noteq> CHR '':''" using assms by (rule isspace_not_colon)
  show "strip (text_after_colon (c # l)) = strip (text_after_colon l)"
    using nc assms by (simp add: text_after_colon_def strip_space_Cons)
  have d: "CHR '':'' \<in> set l \<Longrightarrow>
      dropWhile (\<lambda>x. x \<noteq> CHR '':'') (l @ [c]) = dropWhile (\<lambda>x. x \<noteq> CHR '':'') l @ [c]"
    by (induction l) auto
  have t: "CHR '':'' \<in> set l \<Longrightarrow> dropWhile (\<lambda>x. x \<noteq> CHR '':'') l \<noteq> []"
    by (simp add: dropWhile_eq_Nil_conv) 
  show "strip (text_after_colon (l @ [c])) = strip (text_after_colon l)"
    using nc assms d t by (auto simp: text_after_colon_def strip_space_snoc)
qed

section \<open>Fallback extraction: properties\<close>

lemma task_keywords_set: "set task_keywords = task_triggers"
  by (simp add: task_keywords_def task_triggers_def)

lemma decision_keywords_set: "set decision_keywords = decision_triggers"
  by (simp add: decision_keywords_def decision_triggers_def)

lemma any_task_keyword: "list_ex (\<lambda>kw. contains kw (lower line)) task_keywords = is_task_line line"
  by (simp add: list_ex_iff task_keywords_set is_task_line_def)

lemma any_decision_keyword:
  "list_ex (\<lambda>kw. contains kw (lower line)) decision_keywords = is_decision_line line"
  by (simp add: list_ex_iff decision_keywords_set is_decision_line_def)

lemma line_desc_eq: "line_desc line = strip (text_after_colon line)"
  by (simp add: line_desc_def text_after_colon_def split1_after)

lemma decisions_line_eq:
  "decisions_line line acc =
     (if is_decision_line line then acc @ [strip (text_after_colon line)] else acc)"
  by (simp add: decisions_line_def any_decision_keyword text_after_colon_def split1_after)

lemma decisions_loop_eq:
  "decisions_loop ls acc = acc @ map (\<lambda>l. strip (text_after_colon l)) (filter is_decision_line ls)"
  by (induction ls arbitrary: acc) (simp_all add: decisions_line_eq)

lemma decision_trim_blind: "trim_blind is_decision_line (\<lambda>l. strip (text_after_colon l))"
  unfolding trim_blind_def
  using not_is_decision_line_Nil is_decision_line_trim text_after_colon_trim by blast

lemma task_trim_blind: "trim_blind is_task_line (\<lambda>l. ())"
  unfolding trim_blind_def
  using not_is_task_line_Nil is_task_line_trim by blast

lemma tasks_line_eq:
  "tasks_line clk atts line (acc, k) =
     (if is_task_line line
      then (acc @ [mk_Task (take 100 (line_desc line)) (find_assignee atts line (lower line))
                     (fst (line_due clk k (lower line))) (line_priority (lower line))],
            snd (line_due clk k (lower line)))
      else (acc, k))"
  by (simp add: tasks_line_def any_task_keyword Let_def case_prod_unfold)

lemma line_due_fixed:
  "\<forall>i. clk i = today \<Longrightarrow> fst (line_due clk k ll) = fst (line_due (fixed_clock today) 0 ll)"
  by (simp add: line_due_def now_def fixed_clock_def)

lemma tasks_loop_rel:
  assumes R: "\<And>line acc k. is_task_line line \<Longrightarrow>
      R line (mk_Task (take 100 (line_desc line)) (find_assignee atts line (lower line))
                (fst (line_due clk k (lower line))) (line_priority (lower line)))"
  shows "\<exists>ts. fst (tasks_loop clk atts ls (acc, k)) = acc @ ts
              \<and> list_all2 R (filter is_task_line ls) ts"
proof (induction ls arbitrary: acc k)
  case Nil
  show ?case by simp
next
  case (Cons line ls)
  show ?case
  proof (cases "is_task_line line")
    case False
    then show ?thesis using Cons.IH [of acc k] by (simp add: tasks_line_eq)
  next
    case True
    let ?t = "mk_Task (take 100 (line_desc line)) (find_assignee atts line (lower line))
                (fst (line_due clk k (lower line))) (line_priority (lower line))"
    let ?k = "snd (line_due clk k (lower line))"
    from Cons.IH [of "acc @ [?t]" ?k] obtain ts where
      ts: "fst (tasks_loop clk atts ls (acc @ [?t], ?k)) = (acc @ [?t]) @ ts"
        "list_all2 R (filter is_task_line ls) ts" by blast
    have "fst (tasks_loop clk atts (line # ls) (acc, k)) = acc @ (?t # ts)"
      using True ts(1) by (simp add: tasks_line_eq)
    moreover have "list_all2 R (filter is_task_line (line # ls)) (?t # ts)"
      using True ts(2) R [OF True] by simp
    ultimately show ?thesis by blast
  qed
qed

lemma extract_tasks_rel:
  assumes "\<And>line k. is_task_line line \<Longrightarrow>
      R line (mk_Task (take 100 (line_desc line)) (find_assignee atts line (lower line))
                (fst (line_due clk k (lower line))) (line_priority (lower line)))"
  shows "list_all2 R (filter is_task_line (transcript_lines tr))
           (fst (extract_tasks_fallback clk k tr atts))"
  using tasks_loop_rel [of R atts clk "transcript_lines tr" "[]" k] assms
  by (auto simp: extract_tasks_fallback_def)

lemma find_assignee_eq:
  "find_assignee atts line (lower line) =
     (case find (\<lambda>att. contains (lower att) (lower line)
                       \<or> contains (lower att) (lower (speaker_label line))) atts of
        Some att \<Rightarrow> att | None \<Rightarrow> ''Unassigned'')"
proof (induction atts)
  case Nil
  show ?case by simp
next
  case (Cons att atts)
  have 1: "contains (lower att) (lower (split_on (CHR '':'') line ! 0))
            \<Longrightarrow> contains (lower att) (lower line)"
    unfolding split_on_first by (rule contains_lower_prefix)
  have 2: "contains (lower att) (lower (speaker_label line)) \<Longrightarrow> contains (lower att) (lower line)"
    unfolding speaker_label_def by (rule contains_lower_prefix)
  show ?case using Cons.IH 1 2 by auto
qed

lemma line_due_today:
  "\<forall>i. clk i = today \<Longrightarrow>
   fst (line_due clk k ll) =
     (if contains ''tomorrow'' ll then strftime_ymd (today + 1)
      else if contains ''end of week'' ll then strftime_ymd (today + 5)
      else strftime_ymd (today + 7))"
  by (simp add: line_due_def now_def)

lemma tasks_loop_fixed:
  assumes "\<forall>i. clk i = today"
  shows "fst (tasks_loop clk atts ls (acc, k)) = acc @ map (line_task today atts) (filter is_task_line ls)"
proof (induction ls arbitrary: acc k)
  case Nil
  show ?case by simp
next
  case (Cons line ls)
  show ?case
    using Cons.IH line_due_fixed [OF assms]
    by (simp add: tasks_line_eq line_task_def)
qed

lemma set_set_add: "set (set_add x xs) = insert x (set xs)"
  by (auto simp: set_add_def)

lemma distinct_set_add: "distinct xs \<Longrightarrow> distinct (set_add x xs)"
  by (simp add: set_add_def)

lemma topic_keyword_strip:
  assumes "kw \<noteq> []" "\<not> isspace (hd kw)" "\<not> isspace (last kw)"
  shows "contains kw (lower (strip s)) = contains kw (lower s)"
  using assms by (simp add: lower_strip contains_strip)

lemma line_topics_colon:
  "CHR '':'' \<in> set line \<Longrightarrow>
   line_topics line =
     (let content = lower (text_after_colon line) in
        (if contains ''project'' content \<or> contains ''update'' content
         then {''Project Updates''} else {})
      \<union> (if contains ''deadline'' content \<or> contains ''timeline'' content
         then {''Timeline Discussion''} else {})
      \<union> (if contains ''budget'' content \<or> contains ''cost'' content
         then {''Budget Review''} else {})
      \<union> (if contains ''issue'' content \<or> contains ''problem'' content
            \<or> contains ''blocker'' content
         then {''Blockers & Issues''} else {}))"
proof -
  assume c: "CHR '':'' \<in> set line"
  define content where "content = lower (text_after_colon line)"
  define P where "P = (\<lambda>e :: string set \<times> string. \<exists>kw \<in> fst e. contains kw content)"
  have f: "{e \<in> set topic_table. P e} = set (filter P topic_table)"
    by simp
  have p1: "P ({''project'', ''update''}, l) \<longleftrightarrow> contains ''project'' content \<or> contains ''update'' content"
    and p2: "P ({''deadline'', ''timeline''}, l) \<longleftrightarrow> contains ''deadline'' content \<or> contains ''timeline'' content"
    and p3: "P ({''budget'', ''cost''}, l) \<longleftrightarrow> contains ''budget'' content \<or> contains ''cost'' content"
    and p4: "P ({''issue'', ''problem'', ''blocker''}, l) \<longleftrightarrow>
          contains ''issue'' content \<or> contains ''problem'' content \<or> contains ''blocker'' content"
    for l
    unfolding P_def by simp_all
  have "snd ` set (filter P topic_table) =
        (if contains ''project'' content \<or> contains ''update'' content
         then {''Project Updates''} else {})
      \<union> (if contains ''deadline'' content \<or> contains ''timeline'' content
         then {''Timeline Discussion''} else {})
      \<union> (if contains ''budget'' content \<or> contains ''cost'' content
         then {''Budget Review''} else {})
      \<union> (if contains ''issue'' content \<or> contains ''problem'' content
            \<or> contains ''blocker'' content
         then {''Blockers & Issues''} else {})"
    unfolding topic_table_def filter.simps p1 p2 p3 p4
    by (simp only: split: if_splits) auto
  then have "snd ` {e \<in> set topic_table. P e} =
        (if contains ''project'' content \<or> contains ''update'' content
         then {''Project Updates''} else {})
      \<union> (if contains ''deadline'' content \<or> contains ''timeline'' content
         then {''Timeline Discussion''} else {})
      \<union> (if contains ''budget'' content \<or> contains ''cost'' content
         then {''Budget Review''} else {})
      \<union> (if contains ''issue'' content \<or> contains ''problem'' content
            \<or> contains ''blocker'' content
         then {''Blockers & Issues''} else {})"
    by (simp only: f)
  then show ?thesis
    using c unfolding line_topics_def Let_def P_def content_def
    by (simp only: if_True)
qed

lemma summary_line_set:
  "set (summary_line line topics) = set topics \<union> line_topics line"
proof (cases "CHR '':'' \<in> set line")
  case False
  then show ?thesis by (simp add: summary_line_def line_topics_def)
next
  case True
  have s: "isspace c \<longleftrightarrow> False" if "c \<in> {CHR ''p'', CHR ''u'', CHR ''d'', CHR ''t'',
      CHR ''b'', CHR ''c'', CHR ''i'', CHR ''e'', CHR ''m'', CHR ''r''}" for c
    using that by (auto simp: isspace_def)
  have k: "contains kw (lower (strip (split1 (CHR '':'') line ! Suc 0)))
           = contains kw (lower (text_after_colon line))"
    if "kw \<in> {''project'', ''update'', ''deadline'', ''timeline'', ''budget'', ''cost'',
               ''issue'', ''problem'', ''blocker''}" for kw
  proof -
    from that have "kw \<noteq> [] \<and> \<not> isspace (hd kw) \<and> \<not> isspace (last kw)"
      by (auto simp: isspace_def)
    then show ?thesis
      using True by (simp add: topic_keyword_strip text_after_colon_def split1_after)
  qed
  show ?thesis
    unfolding line_topics_colon [OF True]
    using True
    by (simp add: summary_line_def Let_def k set_set_add del: contains.simps)
qed

lemma summary_line_distinct: "distinct topics \<Longrightarrow> distinct (summary_line line topics)"
  by (simp add: summary_line_def Let_def distinct_set_add)

lemma transcript_topics_Cons:
  "transcript_topics (line # ls) = line_topics line \<union> transcript_topics ls"
  by (simp add: transcript_topics_def)

lemma summary_loop_set:
  "set (summary_loop ls topics) = set topics \<union> transcript_topics ls"
proof (induction ls arbitrary: topics)
  case Nil
  show ?case by (simp add: transcript_topics_def)
next
  case (Cons line ls)
  have "set (summary_loop (line # ls) topics)
        = (set topics \<union> line_topics line) \<union> transcript_topics ls"
    by (simp only: summary_loop.simps Cons.IH summary_line_set)
  then show ?case
    by (simp only: transcript_topics_Cons Un_assoc)
qed

lemma summary_loop_distinct: "distinct topics \<Longrightarrow> distinct (summary_loop ls topics)"
  by (induction ls arbitrary: topics) (simp_all add: summary_line_distinct)

section \<open>The AI path: properties\<close>


lemma lstrip_trimmed: "trimmed s \<Longrightarrow> dropWhile isspace s = s"
  by (cases s) (auto simp: trimmed_def)

lemma rstrip_trimmed: "trimmed s \<Longrightarrow> rstrip s = s"
proof (cases "s = []")
  case True
  then show ?thesis by (simp add: rstrip_def)
next
  case False
  assume "trimmed s"
  with False have "\<not> isspace (hd (rev s))"
    by (simp add: trimmed_def hd_rev)
  moreover from False have "rev s \<noteq> []" by simp
  ultimately have "dropWhile isspace (rev s) = rev s"
    by (cases "rev s") auto
  then show ?thesis by (simp add: rstrip_def)
qed


lemma strip_trimmed: "trimmed s \<Longrightarrow> strip s = s"
  by (simp add: strip_def lstrip_def lstrip_trimmed rstrip_trimmed)





lemma clean_unfenced:
  assumes "trimmed body" "\<not> startswith body ''```json''" "\<not> endswith body ''```''"
  shows "clean_response body = body"
proof -
  have n: "\<not> endswith body (''```'' @ [CHR ''\<newline>''])"
  proof
    assume "endswith body (''```'' @ [CHR ''\<newline>''])"
    then obtain b where "rev body = rev (''```'' @ [CHR ''\<newline>'']) @ b"
      by (auto simp: endswith_def startswith_iff)
    then have "rev (rev body) = rev (rev (''```'' @ [CHR ''\<newline>'']) @ b)" by simp
    then have "body = rev b @ ''```'' @ [CHR ''\<newline>'']" by simp
    then have "body \<noteq> []" and "last body = CHR ''\<newline>''" by simp_all
    with assms(1) show False by (simp add: trimmed_def isspace_def)
  qed
  show ?thesis
    using assms n by (simp add: clean_response_def strip_trimmed sub_fence_start_def sub_fence_end_def)
qed

lemma init_gemini_snd:
  "snd (init_gemini env key ui) =
     (case configure env key of
        None \<Rightarrow> ui
      | Some e \<Rightarrow> ui @ [Error (''Failed to initialize Gemini: '' @ str_exn e)])"
  by (simp add: init_gemini_def split: option.splits)

lemma tasks_of_response_eq:
  "tasks_of_response loads clk k text =
     (case loads (clean_response text) of
        Inl e \<Rightarrow> (Inl e, k)
      | Inr tasks_data \<Rightarrow>
          (case py_iter tasks_data of
             Inl e \<Rightarrow> (Inl e, k)
           | Inr ts \<Rightarrow> ai_tasks_loop clk ts [] k))"
  by (simp add: tasks_of_response_def clean_response_def Let_def)

lemma extract_tasks_ai_try:
  "extract_tasks_ai env loads clk k tr atts key ui =
     (case tasks_try env loads clk k tr atts of
        (Inr ts, k') \<Rightarrow> (Inr ts, snd (init_gemini env key ui), k')
      | (Inl e, k') \<Rightarrow>
          (if is_JSONDecodeError e then (Inr [], snd (init_gemini env key ui), k')
           else (Inr [], snd (init_gemini env key ui)
                          @ [Warning (''Task extraction error: '' @ str_exn e)], k')))"
proof (cases "generate_text env gemini_model
                (tasks_prompt tr (join '', '' atts) (strftime_ymd (clk k)))")
  case (Inl e)
  then show ?thesis
    by (simp add: extract_tasks_ai_def tasks_try_def Let_def now_def case_prod_unfold)
next
  case (Inr resp)
  obtain b k' where t: "tasks_of_response loads clk (Suc k) resp = (b, k')"
    by (cases "tasks_of_response loads clk (Suc k) resp") auto
  show ?thesis
    using Inr t
    by (cases b)
       (simp_all add: extract_tasks_ai_def tasks_try_def Let_def now_def case_prod_unfold)
qed

lemma extract_tasks_ai_ok:
  "fst (tasks_try env loads clk k tr atts) = Inr ts \<Longrightarrow>
   extract_tasks_ai env loads clk k tr atts key ui =
     (Inr ts, snd (init_gemini env key ui), snd (tasks_try env loads clk k tr atts))"
  by (cases "tasks_try env loads clk k tr atts") (simp add: extract_tasks_ai_try)

lemma extract_tasks_ai_decode_error:
  "fst (tasks_try env loads clk k tr atts) = Inl e \<Longrightarrow> is_JSONDecodeError e \<Longrightarrow>
   extract_tasks_ai env loads clk k tr atts key ui =
     (Inr [], snd (init_gemini env key ui), snd (tasks_try env loads clk k tr atts))"
  by (cases "tasks_try env loads clk k tr atts") (simp add: extract_tasks_ai_try)

lemma extract_tasks_ai_other_error:
  "fst (tasks_try env loads clk k tr atts) = Inl e \<Longrightarrow> \<not> is_JSONDecodeError e \<Longrightarrow>
   extract_tasks_ai env loads clk k tr atts key ui =
     (Inr [], snd (init_gemini env key ui) @ [Warning (''Task extraction error: '' @ str_exn e)],
      snd (tasks_try env loads clk k tr atts))"
  by (cases "tasks_try env loads clk k tr atts") (simp add: extract_tasks_ai_try)

lemma extract_tasks_ai_returns:
  "\<exists>ts. fst (extract_tasks_ai env loads clk k tr atts key ui) = Inr ts"
proof (cases "fst (tasks_try env loads clk k tr atts)")
  case (Inr ts)
  then show ?thesis by (simp add: extract_tasks_ai_ok)
next
  case (Inl e)
  then show ?thesis
    by (cases "is_JSONDecodeError e")
       (simp_all add: extract_tasks_ai_decode_error extract_tasks_ai_other_error)
qed

lemma ai_tasks_loop_objects:
  assumes "\<forall>i. clk i = today"
  shows "fst (ai_tasks_loop clk (map JObject dicts) acc k) =
           Inr (acc @ map (\<lambda>kvs. mk_Task (dict_get kvs ''description'' (JString []))
                                    (dict_get kvs ''assignee'' (JString ''Unassigned''))
                                    (dict_get kvs ''due_date'' (JString (strftime_ymd (today + 7))))
                                    (dict_get kvs ''priority'' (JString ''Medium''))) dicts)"
  using assms
  by (induction dicts arbitrary: acc k) (simp_all add: ai_task_of_def now_def)

lemma extract_decisions_ai_returns:
  "\<exists>v u. extract_decisions_ai env loads tr key ui = (Inr v, u)"
proof -
  obtain ok ui' where i: "init_gemini env key ui = (ok, ui')"
    by (cases "init_gemini env key ui") auto
  show ?thesis
  proof (cases "generate_text env gemini_model (decisions_prompt tr)")
    case (Inl e)
    then show ?thesis
      by (simp add: extract_decisions_ai_def i Let_def)
  next
    case (Inr resp)
    then show ?thesis
      by (cases "loads (sub_fence_end (sub_fence_start (strip resp)))")
         (simp_all add: extract_decisions_ai_def i Let_def)
  qed
qed

lemma topic_keywords_solid:
  "e \<in> set topic_table \<Longrightarrow> kw \<in> fst e \<Longrightarrow>
   kw \<noteq> [] \<and> \<not> isspace (hd kw) \<and> \<not> isspace (last kw)"
  unfolding topic_table_def isspace_def by auto

lemma topic_keyword_trim:
  assumes "isspace c" "kw \<noteq> []" "\<not> isspace (hd kw)" "\<not> isspace (last kw)"
  shows "contains kw (lower (text_after_colon (c # l))) = contains kw (lower (text_after_colon l))"
    and "contains kw (lower (text_after_colon (l @ [c]))) = contains kw (lower (text_after_colon l))"
proof -
  have s: "contains kw (lower s) = contains kw (lower (strip s))" for s
    using topic_keyword_strip [OF assms(2-4), of s] by simp
  show "contains kw (lower (text_after_colon (c # l))) = contains kw (lower (text_after_colon l))"
    by (simp only: s [of "text_after_colon (c # l)"] s [of "text_after_colon l"]
        text_after_colon_trim(1) [OF assms(1)])
  show "contains kw (lower (text_after_colon (l @ [c]))) = contains kw (lower (text_after_colon l))"
    by (simp only: s [of "text_after_colon (l @ [c])"] s [of "text_after_colon l"]
        text_after_colon_trim(2) [OF assms(1)])
qed

lemma line_topics_trim:
  assumes "isspace c"
  shows "line_topics (c # l) = line_topics l" and "line_topics (l @ [c]) = line_topics l"
proof -
  have nc: "c \<noteq> CHR '':''" using assms by (rule isspace_not_colon)
  have k1: "(\<exists>kw \<in> fst e. contains kw (lower (text_after_colon (c # l))))
            = (\<exists>kw \<in> fst e. contains kw (lower (text_after_colon l)))"
    if "e \<in> set topic_table" for e
    using topic_keyword_trim(1) [OF assms] topic_keywords_solid [OF that] by metis
  have k2: "(\<exists>kw \<in> fst e. contains kw (lower (text_after_colon (l @ [c]))))
            = (\<exists>kw \<in> fst e. contains kw (lower (text_after_colon l)))"
    if "e \<in> set topic_table" for e
    using topic_keyword_trim(2) [OF assms] topic_keywords_solid [OF that] by metis
  have "{e \<in> set topic_table. \<exists>kw \<in> fst e. contains kw (lower (text_after_colon (c # l)))}
        = {e \<in> set topic_table. \<exists>kw \<in> fst e. contains kw (lower (text_after_colon l))}"
    using k1 by blast
  then show "line_topics (c # l) = line_topics l"
    using nc unfolding line_topics_def by (simp del: contains.simps)
  have "{e \<in> set topic_table. \<exists>kw \<in> fst e. contains kw (lower (text_after_colon (l @ [c])))}
        = {e \<in> set topic_table. \<exists>kw \<in> fst e. contains kw (lower (text_after_colon l))}"
    using k2 by blast
  then show "line_topics (l @ [c]) = line_topics l"
    using nc unfolding line_topics_def by (simp del: contains.simps)
qed

lemma topics_trim_blind: "trim_blind (\<lambda>l. CHR '':'' \<in> set l) line_topics"
proof -
  have "\<not> isspace (CHR '':'')"
    by (simp add: isspace_def)
  then show ?thesis
    unfolding trim_blind_def using line_topics_trim by auto
qed

lemma transcript_topics_colon:
  "transcript_topics ls = \<Union> (set (map line_topics (filter (\<lambda>l. CHR '':'' \<in> set l) ls)))"
  unfolding transcript_topics_def
  by (auto simp: line_topics_def split: if_splits)

lemma transcript_topics_raw:
  "transcript_topics (transcript_lines tr) = transcript_topics (raw_lines tr)"
  by (simp only: transcript_topics_colon lines_strip [OF topics_trim_blind])

subsection \<open>Fences, one by one\<close>









subsection \<open>The extractor on a response\<close>






subsection \<open>Tasks: one per trigger line\<close>

text \<open>
  C1. \<open>extract_tasks_fallback\<close> produces exactly one task for each line whose lower-cased
  text contains at least one of the trigger phrases "will", "need to", "should",
  "action item", "todo", "task", "follow up", "deadline", and none for any other line: the
  tasks are, in order, those built from the lines that match (first conjunct, over the lines
  the function walks), and there are as many tasks as matching newline-delimited segments
  of the transcript itself (second conjunct). A transcript no line of which matches gives
  the empty list. A line matching several phrases counts once, being one element of the
  filtered list.
\<close>

theorem extract_tasks_one_per_trigger_line:
  "list_all2 (\<lambda>line t. description t = take 100 (line_desc line)
                        \<and> assignee t = find_assignee atts line (lower line)
                        \<and> priority t = line_priority (lower line))
      (filter is_task_line (transcript_lines tr)) (fst (extract_tasks_fallback clk k tr atts))
   \<and> length (fst (extract_tasks_fallback clk k tr atts)) = length (filter is_task_line (raw_lines tr))
   \<and> ((\<forall>line \<in> set (raw_lines tr). \<not> is_task_line line)
        \<longrightarrow> fst (extract_tasks_fallback clk k tr atts) = [])"
proof -
  let ?ts = "fst (extract_tasks_fallback clk k tr atts)"
  have rel: "list_all2 (\<lambda>line t. description t = take 100 (line_desc line)
                        \<and> assignee t = find_assignee atts line (lower line)
                        \<and> priority t = line_priority (lower line))
      (filter is_task_line (transcript_lines tr)) ?ts"
    by (rule extract_tasks_rel) (simp add: mk_Task_def)
  then have "length ?ts = length (filter is_task_line (transcript_lines tr))"
    by (simp add: list_all2_lengthD)
  also have "\<dots> = length (map (\<lambda>l. ()) (filter is_task_line (transcript_lines tr)))"
    by simp
  also have "\<dots> = length (map (\<lambda>l. ()) (filter is_task_line (raw_lines tr)))"
    by (simp only: lines_strip [OF task_trim_blind])
  finally have len: "length ?ts = length (filter is_task_line (raw_lines tr))"
    by simp
  have "(\<forall>line \<in> set (raw_lines tr). \<not> is_task_line line) \<longrightarrow> ?ts = []"
  proof
    assume "\<forall>line \<in> set (raw_lines tr). \<not> is_task_line line"
    then have "filter is_task_line (raw_lines tr) = []"
      by (simp add: filter_empty_conv)
    with len show "?ts = []" by simp
  qed
  with rel len show ?thesis by blast
qed

theorem extract_tasks_one_per_trigger_line_witness:
  "length (fst (extract_tasks_fallback (fixed_clock 739000) 0
      ''Alice: hello everyone\<newline>Bob: I will follow up on the task before the deadline\<newline>\<newline>''
      [''Alice'', ''Bob''])) = 1
   \<and> fst (extract_tasks_fallback (fixed_clock 739000) 0
      ''Alice: hello everyone\<newline>Bob: nothing to report'' [''Alice'', ''Bob'']) = []"
proof -
  let ?tr1 = "''Alice: hello everyone\<newline>Bob: I will follow up on the task before the deadline\<newline>\<newline>''"
  let ?tr0 = "''Alice: hello everyone\<newline>Bob: nothing to report''"
  have one: "length (filter is_task_line (raw_lines ?tr1)) = 1"
    by code_simp
  have none: "\<forall>line \<in> set (raw_lines ?tr0). \<not> is_task_line line"
    by code_simp
  from extract_tasks_one_per_trigger_line [of "[''Alice'', ''Bob'']" ?tr1 "fixed_clock 739000" 0]
  have "length (fst (extract_tasks_fallback (fixed_clock 739000) 0 ?tr1 [''Alice'', ''Bob'']))
        = length (filter is_task_line (raw_lines ?tr1))"
    by blast
  moreover
  from extract_tasks_one_per_trigger_line [of "[''Alice'', ''Bob'']" ?tr0 "fixed_clock 739000" 0] none
  have "fst (extract_tasks_fallback (fixed_clock 739000) 0 ?tr0 [''Alice'', ''Bob'']) = []"
    by blast
  ultimately show ?thesis using one by simp
qed

subsection \<open>Tasks: assignee, priority and due date\<close>

text \<open>
  C2. With the clock at \<open>today\<close>, for every line that yields a task: the assignee is the
  first attendee, in list order, whose lower-cased name appears in the line or in the
  speaker label before the first colon, else "Unassigned"; the priority is "High" if the
  line contains "urgent", "asap" or "critical", else "Low" if it contains "when possible" or
  "eventually", else "Medium"; the due date is \<open>today + 1\<close> day if the line contains
  "tomorrow", else \<open>today + 5\<close> days if it contains "end of week", else \<open>today + 7\<close> days.
  The matching is against the lower-cased line, as for the trigger phrases.
\<close>

theorem fallback_task_fields:
  assumes "\<forall>i. clk i = today"
  shows "list_all2
      (\<lambda>line t.
          assignee t =
            (case find (\<lambda>att. contains (lower att) (lower line)
                             \<or> contains (lower att) (lower (speaker_label line))) atts of
               Some att \<Rightarrow> att
             | None \<Rightarrow> ''Unassigned'')
        \<and> priority t =
            (if contains ''urgent'' (lower line) \<or> contains ''asap'' (lower line)
                \<or> contains ''critical'' (lower line) then ''High''
             else if contains ''when possible'' (lower line)
                \<or> contains ''eventually'' (lower line) then ''Low''
             else ''Medium'')
        \<and> due_date t =
            (if contains ''tomorrow'' (lower line) then strftime_ymd (today + 1)
             else if contains ''end of week'' (lower line) then strftime_ymd (today + 5)
             else strftime_ymd (today + 7)))
      (filter is_task_line (transcript_lines tr)) (fst (extract_tasks_fallback clk k tr atts))"
proof (rule extract_tasks_rel)
  fix line :: string and k' :: nat
  show "assignee (mk_Task (take 100 (line_desc line)) (find_assignee atts line (lower line))
                   (fst (line_due clk k' (lower line))) (line_priority (lower line))) =
            (case find (\<lambda>att. contains (lower att) (lower line)
                             \<or> contains (lower att) (lower (speaker_label line))) atts of
               Some att \<Rightarrow> att
             | None \<Rightarrow> ''Unassigned'')
        \<and> priority (mk_Task (take 100 (line_desc line)) (find_assignee atts line (lower line))
                   (fst (line_due clk k' (lower line))) (line_priority (lower line))) =
            (if contains ''urgent'' (lower line) \<or> contains ''asap'' (lower line)
                \<or> contains ''critical'' (lower line) then ''High''
             else if contains ''when possible'' (lower line)
                \<or> contains ''eventually'' (lower line) then ''Low''
             else ''Medium'')
        \<and> due_date (mk_Task (take 100 (line_desc line)) (find_assignee atts line (lower line))
                   (fst (line_due clk k' (lower line))) (line_priority (lower line))) =
            (if contains ''tomorrow'' (lower line) then strftime_ymd (today + 1)
             else if contains ''end of week'' (lower line) then strftime_ymd (today + 5)
             else strftime_ymd (today + 7))"
    unfolding mk_Task_def
    by (simp add: find_assignee_eq line_priority_def line_due_today [OF assms])
qed

theorem fallback_task_fields_witness:
  "(\<forall>i. fixed_clock 739000 i = 739000)
   \<and> list_all2 (\<lambda>line t. assignee t = ''Bob'' \<and> priority t = ''Medium''
                          \<and> due_date t = ''2024-05-01'')
       [''Bob: I will complete the API integration by Friday.'']
       (fst (extract_tasks_fallback (fixed_clock 739000) 0
              ''Bob: I will complete the API integration by Friday.''
              [''Alice'', ''Bob'', ''Charlie'']))"
proof -
  let ?tr = "''Bob: I will complete the API integration by Friday.''"
  let ?atts = "[''Alice'', ''Bob'', ''Charlie'']"
  let ?R = "\<lambda>line t.
          assignee t =
            (case find (\<lambda>att. contains (lower att) (lower line)
                             \<or> contains (lower att) (lower (speaker_label line))) ?atts of
               Some att \<Rightarrow> att
             | None \<Rightarrow> ''Unassigned'')
        \<and> priority t =
            (if contains ''urgent'' (lower line) \<or> contains ''asap'' (lower line)
                \<or> contains ''critical'' (lower line) then ''High''
             else if contains ''when possible'' (lower line)
                \<or> contains ''eventually'' (lower line) then ''Low''
             else ''Medium'')
        \<and> due_date t =
            (if contains ''tomorrow'' (lower line) then strftime_ymd (739000 + 1)
             else if contains ''end of week'' (lower line) then strftime_ymd (739000 + 5)
             else strftime_ymd (739000 + 7))"
  have h: "\<forall>i. fixed_clock 739000 i = 739000"
    by (simp add: fixed_clock_def)
  have lines: "filter is_task_line (transcript_lines ?tr) = [?tr]"
    by code_simp
  have a: "(case find (\<lambda>att. contains (lower att) (lower ?tr)
                             \<or> contains (lower att) (lower (speaker_label ?tr))) ?atts of
               Some att \<Rightarrow> att
             | None \<Rightarrow> ''Unassigned'') = ''Bob''"
    by code_simp
  have p: "(if contains ''urgent'' (lower ?tr) \<or> contains ''asap'' (lower ?tr)
                \<or> contains ''critical'' (lower ?tr) then ''High''
             else if contains ''when possible'' (lower ?tr)
                \<or> contains ''eventually'' (lower ?tr) then ''Low''
             else ''Medium'') = ''Medium''"
    by code_simp
  have d: "(if contains ''tomorrow'' (lower ?tr) then strftime_ymd (739000 + 1)
             else if contains ''end of week'' (lower ?tr) then strftime_ymd (739000 + 5)
             else strftime_ymd (739000 + 7)) = ''2024-05-01''"
    by code_simp
  have L: "list_all2 ?R [?tr] (fst (extract_tasks_fallback (fixed_clock 739000) 0 ?tr ?atts))"
    using fallback_task_fields [OF h, of ?atts ?tr 0] by (simp only: lines)
  have "list_all2 (\<lambda>line t. assignee t = ''Bob'' \<and> priority t = ''Medium''
                          \<and> due_date t = ''2024-05-01'') [?tr]
       (fst (extract_tasks_fallback (fixed_clock 739000) 0 ?tr ?atts))"
  proof (rule list.rel_mono_strong [OF L])
    fix line :: string and t :: "string Task"
    assume "line \<in> set [?tr]" and R: "?R line t"
    then have "line = ?tr" by simp
    with R have "?R ?tr t" by (simp only:)
    then show "assignee t = ''Bob'' \<and> priority t = ''Medium'' \<and> due_date t = ''2024-05-01''"
      by (simp only: a p d)
  qed
  with h show ?thesis by blast
qed

subsection \<open>Tasks: description\<close>

text \<open>
  C3, as the specification words it: the description is the text after the first colon of
  the line, or the whole line, cut to 100 characters. The code trims that text before it
  cuts it. On "Bob: I will review" the text after the colon starts with a blank and the
  description does not; and a text after the colon of more than 100 characters, most of
  them blanks, leaves a description of 13 characters, not of 100.
\<close>

theorem fallback_task_description_counterexample:
  "filter is_task_line (transcript_lines ''Bob: I will review'') = [''Bob: I will review'']
   \<and> map description (fst (extract_tasks_fallback (fixed_clock 739000) 0
           ''Bob: I will review'' [''Bob''])) = [''I will review'']
   \<and> take 100 (text_after_colon ''Bob: I will review'') = '' I will review''
   \<and> map description (fst (extract_tasks_fallback (fixed_clock 739000) 0
           ''Bob: I will review'' [''Bob'']))
       \<noteq> [take 100 (text_after_colon ''Bob: I will review'')]
   \<and> 100 < length (text_after_colon (''Bob:'' @ replicate 120 (CHR '' '') @ ''I will review''))
   \<and> map length (map description (fst (extract_tasks_fallback (fixed_clock 739000) 0
           (''Bob:'' @ replicate 120 (CHR '' '') @ ''I will review'') [''Bob''])))
       = [13]"
  by code_simp

text \<open>
  C3, amended. For every task of \<open>extract_tasks_fallback\<close>, the description is the text
  after the first colon of the line when there is a colon, otherwise the whole line,
  trimmed of white space at both ends and then cut to at most 100 characters; when the
  trimmed text is longer than 100 characters, the description has exactly 100.
\<close>

theorem fallback_task_description:
  "list_all2
      (\<lambda>line t. description t = take 100 (strip (text_after_colon line))
               \<and> length (description t) \<le> 100
               \<and> (100 < length (strip (text_after_colon line)) \<longrightarrow> length (description t) = 100))
      (filter is_task_line (transcript_lines tr)) (fst (extract_tasks_fallback clk k tr atts))"
proof (rule extract_tasks_rel)
  fix line :: string and k' :: nat
  let ?t = "mk_Task (take 100 (line_desc line)) (find_assignee atts line (lower line))
              (fst (line_due clk k' (lower line))) (line_priority (lower line))"
  have d: "description ?t = take 100 (strip (text_after_colon line))"
    by (simp add: mk_Task_def line_desc_eq)
  then have le: "length (description ?t) \<le> 100"
    by simp
  have eq: "100 < length (strip (text_after_colon line)) \<longrightarrow> length (description ?t) = 100"
    using d by simp
  from d le eq
  show "description ?t = take 100 (strip (text_after_colon line))
        \<and> length (description ?t) \<le> 100
        \<and> (100 < length (strip (text_after_colon line)) \<longrightarrow> length (description ?t) = 100)"
    by blast
qed

theorem fallback_task_description_witness:
  "100 < length (strip (text_after_colon (''Bob: I will '' @ replicate 150 (CHR ''x''))))
   \<and> list_all2 (\<lambda>line t. length (description t) = 100)
        [''Bob: I will '' @ replicate 150 (CHR ''x'')]
        (fst (extract_tasks_fallback (fixed_clock 739000) 0
               (''Bob: I will '' @ replicate 150 (CHR ''x'')) [''Bob'']))"
proof -
  let ?tr = "''Bob: I will '' @ replicate 150 (CHR ''x'')"
  have long: "100 < length (strip (text_after_colon ?tr))"
    by code_simp
  have lines: "filter is_task_line (transcript_lines ?tr) = [?tr]"
    by code_simp
  from fallback_task_description [of ?tr "fixed_clock 739000" 0 "[''Bob'']"]
  have "list_all2 (\<lambda>line t. length (description t) = 100) [?tr]
        (fst (extract_tasks_fallback (fixed_clock 739000) 0 ?tr [''Bob'']))"
    unfolding lines using long by (auto simp: list_all2_Cons1)
  with long show ?thesis by blast
qed

subsection \<open>Summary\<close>

text \<open>
  C4, as the specification words it: the summary names the total line count of the
  transcript, a line being a newline-delimited segment of it. The code trims the transcript
  before it splits it, so blank lines at the start and at the end of the transcript are not
  counted: a transcript made of an empty line and the line "Alice: hi" has two lines and
  gives "Meeting covered 1 discussion points", and "Alice: hi" followed by two line breaks
  gives the same.
\<close>

theorem summary_line_count_counterexample:
  "raw_lines ''\<newline>Alice: hi'' = [[], ''Alice: hi'']
   \<and> extract_summary_fallback rev ''\<newline>Alice: hi'' = ''Meeting covered 1 discussion points''
   \<and> extract_summary_fallback rev ''\<newline>Alice: hi''
       \<noteq> ''Meeting covered '' @ str_int (int (length (raw_lines ''\<newline>Alice: hi'')))
           @ '' discussion points''
   \<and> raw_lines ''Alice: hi\<newline>\<newline>'' = [''Alice: hi'', [], []]
   \<and> extract_summary_fallback rev ''Alice: hi\<newline>\<newline>''
       = ''Meeting covered 1 discussion points''"
  by code_simp

text \<open>
  C4, amended. For every transcript, \<open>extract_summary_fallback\<close> returns
  "Meeting covered N discussion points", N being the number of lines of the transcript
  once white space is removed from its two ends (an empty transcript counts as one line),
  followed by " including: ", the topic labels joined by ", " and a full stop exactly when
  the set of matched topic labels is not empty. The labels are those of the table: a line
  of the transcript contributes the label of a keyword set when the text after its first
  colon, lower-cased, contains one of the keywords. Each label appears once; their order is
  that of the iteration over the set.
\<close>

theorem summary_text:
  assumes "\<forall>xs. distinct xs \<longrightarrow> distinct (set_iter xs) \<and> set (set_iter xs) = set xs"
  shows "\<exists>labels. distinct labels
           \<and> set labels = transcript_topics (raw_lines tr)
           \<and> extract_summary_fallback set_iter tr =
               ''Meeting covered '' @ str_int (int (length (raw_lines (strip tr))))
                 @ '' discussion points''
                 @ (if labels = [] then [] else '' including: '' @ join '', '' labels @ ''.'')"
proof -
  let ?topics = "summary_loop (transcript_lines tr) []"
  have d: "distinct ?topics"
    by (rule summary_loop_distinct) simp
  have s: "set ?topics = transcript_topics (raw_lines tr)"
    by (simp add: summary_loop_set transcript_topics_raw)
  have n: "transcript_lines tr = raw_lines (strip tr)"
    by (simp add: transcript_lines_def raw_lines_def)
  from assms d have i: "distinct (set_iter ?topics)" "set (set_iter ?topics) = set ?topics"
    by blast+
  show ?thesis
  proof (cases "?topics = []")
    case True
    then have "extract_summary_fallback set_iter tr =
               ''Meeting covered '' @ str_int (int (length (raw_lines (strip tr))))
                 @ '' discussion points''"
      by (simp add: extract_summary_fallback_def Let_def n)
    moreover from True s have "set [] = transcript_topics (raw_lines tr)"
      by simp
    ultimately show ?thesis
      by (intro exI [of _ "[]"]) simp
  next
    case False
    with i(2) have ne: "set_iter ?topics \<noteq> []"
      by auto
    from False have "extract_summary_fallback set_iter tr =
               ''Meeting covered '' @ str_int (int (length (raw_lines (strip tr))))
                 @ '' discussion points'' @ '' including: '' @ join '', '' (set_iter ?topics) @ ''.''"
      by (simp add: extract_summary_fallback_def Let_def n)
    with ne i s show ?thesis
      by (intro exI [of _ "set_iter ?topics"]) simp
  qed
qed

theorem summary_text_witness:
  "(\<exists>labels. distinct labels
        \<and> set labels = {''Project Updates'', ''Timeline Discussion'', ''Blockers & Issues''}
        \<and> extract_summary_fallback rev
             ''Alice: the PROJECT timeline\<newline>Bob: there is a blocker\<newline>no colon, budget\<newline>\<newline>''
            = ''Meeting covered 3 discussion points''
                @ (if labels = [] then [] else '' including: '' @ join '', '' labels @ ''.''))
   \<and> extract_summary_fallback rev
        ''Alice: the PROJECT timeline\<newline>Bob: there is a blocker\<newline>no colon, budget\<newline>\<newline>''
      = ''Meeting covered 3 discussion points including: Blockers & Issues, Timeline Discussion, Project Updates.''
   \<and> extract_summary_fallback rev ''hello\<newline>world'' = ''Meeting covered 2 discussion points''"
proof -
  let ?tr = "''Alice: the PROJECT timeline\<newline>Bob: there is a blocker\<newline>no colon, budget\<newline>\<newline>''"
  have h: "\<forall>xs :: string list. distinct xs \<longrightarrow> distinct (rev xs) \<and> set (rev xs) = set xs"
    by simp
  have t: "transcript_topics (raw_lines ?tr)
           = {''Project Updates'', ''Timeline Discussion'', ''Blockers & Issues''}"
    by code_simp
  have n: "str_int (int (length (raw_lines (strip ?tr)))) = ''3''"
    by code_simp
  have e1: "extract_summary_fallback rev ?tr
      = ''Meeting covered 3 discussion points including: Blockers & Issues, Timeline Discussion, Project Updates.''"
    by code_simp
  have e2: "extract_summary_fallback rev ''hello\<newline>world'' = ''Meeting covered 2 discussion points''"
    by code_simp
  from summary_text [OF h, of ?tr]
  have "\<exists>labels. distinct labels
        \<and> set labels = {''Project Updates'', ''Timeline Discussion'', ''Blockers & Issues''}
        \<and> extract_summary_fallback rev ?tr
            = ''Meeting covered 3 discussion points''
                @ (if labels = [] then [] else '' including: '' @ join '', '' labels @ ''.'')"
    unfolding t n by simp
  with e1 e2 show ?thesis by blast
qed

subsection \<open>Decisions: one per trigger line\<close>

text \<open>
  C5. \<open>extract_decisions_fallback\<close> emits, for each line whose lower-cased text contains at
  least one of "decided", "agreed", "approved", "confirmed", "will go with",
  "final decision", the text after the first colon of the line if there is one, else the
  whole line, trimmed; nothing is removed as a duplicate and nothing is cut. This holds
  over the lines the function walks and over the newline-delimited segments of the
  transcript itself. A transcript no line of which matches gives the empty list.
\<close>

theorem extract_decisions_per_trigger_line:
  "extract_decisions_fallback tr
     = map (\<lambda>line. strip (text_after_colon line)) (filter is_decision_line (transcript_lines tr))
   \<and> extract_decisions_fallback tr
     = map (\<lambda>line. strip (text_after_colon line)) (filter is_decision_line (raw_lines tr))
   \<and> ((\<forall>line \<in> set (raw_lines tr). \<not> is_decision_line line)
        \<longrightarrow> extract_decisions_fallback tr = [])"
proof -
  have a: "extract_decisions_fallback tr
     = map (\<lambda>line. strip (text_after_colon line)) (filter is_decision_line (transcript_lines tr))"
    by (simp add: extract_decisions_fallback_def decisions_loop_eq)
  then have b: "extract_decisions_fallback tr
     = map (\<lambda>line. strip (text_after_colon line)) (filter is_decision_line (raw_lines tr))"
    by (simp only: lines_strip [OF decision_trim_blind])
  have "(\<forall>line \<in> set (raw_lines tr). \<not> is_decision_line line)
        \<longrightarrow> extract_decisions_fallback tr = []"
  proof
    assume "\<forall>line \<in> set (raw_lines tr). \<not> is_decision_line line"
    then have "filter is_decision_line (raw_lines tr) = []"
      by (simp add: filter_empty_conv)
    with b show "extract_decisions_fallback tr = []" by simp
  qed
  with a b show ?thesis by blast
qed

theorem extract_decisions_per_trigger_line_witness:
  "extract_decisions_fallback
     ''Charlie: I agreed to handle the client presentation next Tuesday.\<newline>Bob: we agreed, it is approved: go\<newline>Bob: we agreed, it is approved: go''
     = [''I agreed to handle the client presentation next Tuesday.'',
        ''we agreed, it is approved: go'', ''we agreed, it is approved: go'']
   \<and> extract_decisions_fallback ''Alice: hello everyone\<newline>Bob: nothing to report'' = []"
proof -
  let ?tr1 = "''Charlie: I agreed to handle the client presentation next Tuesday.\<newline>Bob: we agreed, it is approved: go\<newline>Bob: we agreed, it is approved: go''"
  let ?tr0 = "''Alice: hello everyone\<newline>Bob: nothing to report''"
  have ev: "map (\<lambda>line. strip (text_after_colon line)) (filter is_decision_line (raw_lines ?tr1))
      = [''I agreed to handle the client presentation next Tuesday.'',
        ''we agreed, it is approved: go'', ''we agreed, it is approved: go'']"
    by code_simp
  have none: "\<forall>line \<in> set (raw_lines ?tr0). \<not> is_decision_line line"
    by code_simp
  from extract_decisions_per_trigger_line [of ?tr1]
  have "extract_decisions_fallback ?tr1
      = map (\<lambda>line. strip (text_after_colon line)) (filter is_decision_line (raw_lines ?tr1))"
    by blast
  with ev have "extract_decisions_fallback ?tr1
      = [''I agreed to handle the client presentation next Tuesday.'',
        ''we agreed, it is approved: go'', ''we agreed, it is approved: go'']"
    by (simp only:)
  moreover from extract_decisions_per_trigger_line [of ?tr0] none
  have "extract_decisions_fallback ?tr0 = []" by blast
  ultimately show ?thesis by simp
qed

subsection \<open>Task extraction: fences, decoding, degrading to the empty list\<close>



subsection \<open>Summary and email degrade to an error text\<close>

text \<open>
  C7. Whatever the Gemini client does, \<open>extract_summary_ai\<close> and
  \<open>generate_followup_email_ai\<close> return a string and do not raise. When the client answers,
  the summary is its trimmed answer; when it fails, the summary is an error description,
  "Error generating summary: " followed by the message of the failure, in the place of the
  summary. The email likewise is "Error generating email: " and the message, when the
  client fails or when building the prompt fails. The AI branch of the processing handler,
  which calls the three extraction functions in turn, always returns with a meeting.
\<close>

theorem ai_text_never_raises:
  "(\<exists>s. fst (extract_summary_ai env tr key ui) = Inr s)
   \<and> (generate_text env gemini_model (summary_prompt tr) = Inr resp
       \<longrightarrow> fst (extract_summary_ai env tr key ui) = Inr (strip resp))
   \<and> (generate_text env gemini_model (summary_prompt tr) = Inl e
       \<longrightarrow> fst (extract_summary_ai env tr key ui)
             = Inr (''Error generating summary: '' @ str_exn e))
   \<and> (\<exists>s. fst (generate_followup_email_ai env meeting key ui) = Inr s)
   \<and> (decisions_text (decisions meeting) = Inr ds
       \<and> generate_text env gemini_model
            (email_prompt meeting
               (if tasks meeting \<noteq> [] then concat (map task_line (tasks meeting)) else []) ds)
           = Inl e
       \<longrightarrow> fst (generate_followup_email_ai env meeting key ui)
             = Inr (''Error generating email: '' @ str_exn e))
   \<and> (decisions_text (decisions meeting) = Inl e
       \<longrightarrow> fst (generate_followup_email_ai env meeting key ui)
             = Inr (''Error generating email: '' @ str_exn e))
   \<and> (\<exists>m'. fst (process_ai env loads clk k tr atts key meeting ui) = Inr m')"
proof -
  let ?tasks_str = "if tasks meeting \<noteq> [] then concat (map task_line (tasks meeting)) else []"
  obtain ok ui' where init: "init_gemini env key ui = (ok, ui')"
    by (cases "init_gemini env key ui") auto
  have s_ok: "fst (extract_summary_ai env' tr' key' ui0) = Inr (strip r)"
    if "generate_text env' gemini_model (summary_prompt tr') = Inr r" for env' tr' key' ui0 r
    using that by (simp add: extract_summary_ai_def Let_def case_prod_unfold)
  have s_err: "fst (extract_summary_ai env' tr' key' ui0)
               = Inr (''Error generating summary: '' @ str_exn x)"
    if "generate_text env' gemini_model (summary_prompt tr') = Inl x" for env' tr' key' ui0 x
    using that by (simp add: extract_summary_ai_def Let_def case_prod_unfold)
  have s_ret: "\<exists>s. fst (extract_summary_ai env' tr' key' ui0) = Inr s" for env' tr' key' ui0
    by (cases "generate_text env' gemini_model (summary_prompt tr')")
       (simp_all add: s_ok s_err)
  have m_dec: "fst (generate_followup_email_ai env meeting key ui)
               = Inr (''Error generating email: '' @ str_exn x)"
    if "decisions_text (decisions meeting) = Inl x" for x
    using that by (simp add: generate_followup_email_ai_def Let_def case_prod_unfold)
  have m_err: "fst (generate_followup_email_ai env meeting key ui)
               = Inr (''Error generating email: '' @ str_exn x)"
    if "decisions_text (decisions meeting) = Inr d"
      and "generate_text env gemini_model (email_prompt meeting ?tasks_str d) = Inl x" for d x
    using that by (simp add: generate_followup_email_ai_def Let_def case_prod_unfold)
  have m_ok: "fst (generate_followup_email_ai env meeting key ui) = Inr (strip r)"
    if "decisions_text (decisions meeting) = Inr d"
      and "generate_text env gemini_model (email_prompt meeting ?tasks_str d) = Inr r" for d r
    using that by (simp add: generate_followup_email_ai_def Let_def case_prod_unfold)
  have m_ret: "\<exists>s. fst (generate_followup_email_ai env meeting key ui) = Inr s"
  proof (cases "decisions_text (decisions meeting)")
    case (Inl x)
    then show ?thesis by (simp add: m_dec)
  next
    case (Inr d)
    then show ?thesis
      by (cases "generate_text env gemini_model (email_prompt meeting ?tasks_str d)")
         (simp_all add: m_err m_ok)
  qed
  have p_ret: "\<exists>m'. fst (process_ai env loads clk k tr atts key meeting ui) = Inr m'"
  proof -
    obtain s u1 where a: "extract_summary_ai env tr key ui = (Inr s, u1)"
      using s_ret [of env tr key ui] by (cases "extract_summary_ai env tr key ui") auto
    obtain ts u2 k2 where b: "extract_tasks_ai env loads clk k tr atts key u1 = (Inr ts, u2, k2)"
      using extract_tasks_ai_returns [of env loads clk k tr atts key u1]
      by (cases "extract_tasks_ai env loads clk k tr atts key u1") auto
    obtain d u3 where c: "extract_decisions_ai env loads tr key u2 = (Inr d, u3)"
      using extract_decisions_ai_returns [of env loads tr key u2] by auto
    show ?thesis
      by (simp add: process_ai_def Let_def a b c)
  qed
  from s_ret [of env tr key ui] s_ok [of env tr resp key ui] s_err [of env tr e key ui]
    m_ret m_err [of ds e] m_dec [of e] p_ret
  show ?thesis by blast
qed

theorem ai_text_never_raises_witness:
  "fst (extract_summary_ai (failing (ServiceError ''quota exceeded'')) ''Bob: hello'' ''key'' [])
     = Inr ''Error generating summary: quota exceeded''
   \<and> fst (extract_summary_ai (answering '' A short call. '') ''Bob: hello'' ''key'' [])
     = Inr ''A short call.''
   \<and> fst (generate_followup_email_ai (failing (ServiceError ''quota exceeded''))
            (example_ai_meeting [] (JArray [JString ''Go ahead'']))  ''key'' [])
     = Inr ''Error generating email: quota exceeded''
   \<and> fst (generate_followup_email_ai (answering ''Hi team'')
            (example_ai_meeting [] (JInt 5))  ''key'' [])
     = Inr (''Error generating email: '' @ quoted ''int'' @ '' object is not iterable'')"
proof -
  let ?e = "ServiceError ''quota exceeded''"
  let ?m1 = "example_ai_meeting [] (JArray [JString ''Go ahead''])"
  let ?m2 = "example_ai_meeting [] (JInt 5)"
  have gf: "generate_text (failing ?e) gemini_model p = Inl ?e" for p
    by (simp add: failing_def)
  have ga: "generate_text (answering '' A short call. '') gemini_model p = Inr '' A short call. ''" for p
    by (simp add: answering_def)
  have st: "strip '' A short call. '' = ''A short call.''"
    by code_simp
  have d1: "decisions_text (decisions ?m1) = Inr ''- Go ahead''"
    by code_simp
  have d2: "decisions_text (decisions ?m2)
            = Inl (TypeError (quoted ''int'' @ '' object is not iterable''))"
    by code_simp
  have 1: "fst (extract_summary_ai (failing ?e) ''Bob: hello'' ''key'' [])
           = Inr ''Error generating summary: quota exceeded''"
    using ai_text_never_raises [where env = "failing ?e" and tr = "''Bob: hello''"
        and key = "''key''" and ui = "[]" and resp = "[]" and e = ?e and meeting = ?m1
        and ds = "''- Go ahead''"] gf
    by simp
  have 2: "fst (extract_summary_ai (answering '' A short call. '') ''Bob: hello'' ''key'' [])
           = Inr ''A short call.''"
    using ai_text_never_raises [where env = "answering '' A short call. ''"
        and tr = "''Bob: hello''" and key = "''key''" and ui = "[]"
        and resp = "'' A short call. ''" and e = ?e and meeting = ?m1
        and ds = "''- Go ahead''"] ga st
    by simp
  have 3: "fst (generate_followup_email_ai (failing ?e) ?m1 ''key'' [])
           = Inr ''Error generating email: quota exceeded''"
    using ai_text_never_raises [where env = "failing ?e" and tr = "''Bob: hello''"
        and key = "''key''" and ui = "[]" and resp = "[]" and e = ?e and meeting = ?m1
        and ds = "''- Go ahead''"] gf d1
    by simp
  have 4: "fst (generate_followup_email_ai (answering ''Hi team'') ?m2 ''key'' [])
           = Inr (''Error generating email: '' @ quoted ''int'' @ '' object is not iterable'')"
    using ai_text_never_raises [where env = "answering ''Hi team''" and tr = "''Bob: hello''"
        and key = "''key''" and ui = "[]" and resp = "[]"
        and e = "TypeError (quoted ''int'' @ '' object is not iterable'')" and meeting = ?m2
        and ds = "[]"] d2
    by simp
  from 1 2 3 4 show ?thesis by blast
qed

subsection \<open>Determinism of the fallback path\<close>

text \<open>
  C8. With a fixed clock the fallback extraction is deterministic. The three functions read
  nothing but their arguments, the clock and the iteration order of a set; so two calls with
  the same transcript and attendees, made under clocks that both stay at \<open>today\<close> and in one
  interpreter (one iteration order), give the same summary, tasks and decisions, however
  many clock readings came before each call. In particular a second call, made right after
  the first and continuing its clock readings, repeats the output of the first.
\<close>

theorem fallback_deterministic:
  assumes "\<forall>i. clk i = today" and "\<forall>i. clk' i = today"
  shows "fst (process_fallback clk k set_iter tr atts)
           = fst (process_fallback clk' k' set_iter tr atts)
         \<and> fst (process_fallback clk (snd (process_fallback clk k set_iter tr atts)) set_iter tr atts)
           = fst (process_fallback clk k set_iter tr atts)"
proof -
  have t: "fst (extract_tasks_fallback c j tr atts)
           = map (line_task today atts) (filter is_task_line (transcript_lines tr))"
    if "\<forall>i. c i = today" for c j
    using tasks_loop_fixed [OF that, of atts "transcript_lines tr" "[]" j]
    by (simp add: extract_tasks_fallback_def)
  have p: "fst (process_fallback c j set_iter tr atts)
           = (extract_summary_fallback set_iter tr,
              map (line_task today atts) (filter is_task_line (transcript_lines tr)),
              extract_decisions_fallback tr)"
    if "\<forall>i. c i = today" for c j
    using t [OF that, of j] by (simp add: process_fallback_def Let_def case_prod_unfold)
  show ?thesis
    by (simp only: p [OF assms(1)] p [OF assms(2)])
qed

theorem fallback_deterministic_witness:
  "(\<forall>i. fixed_clock 739000 i = 739000)
   \<and> fst (process_fallback (fixed_clock 739000) 0 rev
        ''Alice: the project deadline is tomorrow\<newline>Bob: agreed, I will do it'' [''Alice'', ''Bob''])
     = fst (process_fallback (fixed_clock 739000) 7 rev
        ''Alice: the project deadline is tomorrow\<newline>Bob: agreed, I will do it'' [''Alice'', ''Bob''])
   \<and> fst (process_fallback (fixed_clock 739000) 0 rev
        ''Alice: the project deadline is tomorrow\<newline>Bob: agreed, I will do it'' [''Alice'', ''Bob''])
     = (''Meeting covered 2 discussion points including: Timeline Discussion, Project Updates.'',
        [mk_Task ''the project deadline is tomorrow'' ''Alice'' ''2024-04-25'' ''Medium'',
         mk_Task ''agreed, I will do it'' ''Bob'' ''2024-05-01'' ''Medium''],
        [''agreed, I will do it''])"
proof -
  let ?tr = "''Alice: the project deadline is tomorrow\<newline>Bob: agreed, I will do it''"
  have h: "\<forall>i. fixed_clock 739000 i = 739000"
    by (simp add: fixed_clock_def)
  have e: "fst (process_fallback (fixed_clock 739000) 0 rev ?tr [''Alice'', ''Bob''])
     = (''Meeting covered 2 discussion points including: Timeline Discussion, Project Updates.'',
        [mk_Task ''the project deadline is tomorrow'' ''Alice'' ''2024-04-25'' ''Medium'',
         mk_Task ''agreed, I will do it'' ''Bob'' ''2024-05-01'' ''Medium''],
        [''agreed, I will do it''])"
    by code_simp
  from fallback_deterministic [OF h h, of 0 rev ?tr "[''Alice'', ''Bob'']" 7]
  have "fst (process_fallback (fixed_clock 739000) 0 rev ?tr [''Alice'', ''Bob''])
     = fst (process_fallback (fixed_clock 739000) 7 rev ?tr [''Alice'', ''Bob''])"
    by blast
  with h e show ?thesis by blast
qed

subsection \<open>Decoded tasks are taken as they are\<close>

text \<open>
  C10. \<open>extract_tasks_ai\<close> turns each object of the decoded array into a task field by
  field, without checking any value: each field is the value under its key, and a key that
  is missing gives the default, the empty string for the description, "Unassigned" for the
  assignee, \<open>today + 7\<close> days for the due date and "Medium" for the priority (first part,
  for a response that decodes to an array of objects, the clock being at \<open>today\<close>). So there
  is a well-formed response, the array with the one object
  \<open>{"assignee": "Zed", "priority": "Urgent"}\<close>, for which the result holds a task whose
  assignee is neither an attendee nor "Unassigned" and whose priority is none of "High",
  "Medium" and "Low" (second part, for any decoder that decodes this text as \<open>json.loads\<close>
  does).
\<close>

theorem ai_tasks_verbatim:
  \<open>((\<forall>i. clk i = today)
     \<and> generate_text env gemini_model (tasks_prompt tr (join '', '' atts) (strftime_ymd today))
         = Inr resp
     \<and> loads (clean_response resp) = Inr (JArray (map JObject dicts))
     \<longrightarrow> fst (extract_tasks_ai env loads clk k tr atts key ui)
         = Inr (map (\<lambda>kvs. mk_Task
                       (case map_of kvs ''description'' of Some v \<Rightarrow> v | None \<Rightarrow> JString [])
                       (case map_of kvs ''assignee'' of Some v \<Rightarrow> v
                        | None \<Rightarrow> JString ''Unassigned'')
                       (case map_of kvs ''due_date'' of Some v \<Rightarrow> v
                        | None \<Rightarrow> JString (strftime_ymd (today + 7)))
                       (case map_of kvs ''priority'' of Some v \<Rightarrow> v
                        | None \<Rightarrow> JString ''Medium'')) dicts))
   \<and> ((\<forall>i. clk i = today)
       \<and> generate_text env gemini_model (tasks_prompt tr (join '', '' atts) (strftime_ymd today))
           = Inr ''[{"assignee": "Zed", "priority": "Urgent"}]''
       \<and> loads ''[{"assignee": "Zed", "priority": "Urgent"}]''
           = Inr (JArray [JObject [(''assignee'', JString ''Zed''),
                                   (''priority'', JString ''Urgent'')]])
       \<and> ''Zed'' \<notin> set atts
       \<longrightarrow> (\<exists>ts t. fst (extract_tasks_ai env loads clk k tr atts key ui) = Inr ts
              \<and> t \<in> set ts
              \<and> assignee t \<notin> JString ` (set atts \<union> {''Unassigned''})
              \<and> priority t \<notin> JString ` {''High'', ''Medium'', ''Low''}
              \<and> description t = JString []
              \<and> due_date t = JString (strftime_ymd (today + 7))))\<close>
proof -
  let ?mk = "\<lambda>kvs. mk_Task
                       (case map_of kvs ''description'' of Some v \<Rightarrow> v | None \<Rightarrow> JString [])
                       (case map_of kvs ''assignee'' of Some v \<Rightarrow> v
                        | None \<Rightarrow> JString ''Unassigned'')
                       (case map_of kvs ''due_date'' of Some v \<Rightarrow> v
                        | None \<Rightarrow> JString (strftime_ymd (today + 7)))
                       (case map_of kvs ''priority'' of Some v \<Rightarrow> v
                        | None \<Rightarrow> JString ''Medium'')"
  have main: "fst (extract_tasks_ai env loads clk k tr atts key ui) = Inr (map ?mk ds)"
    if fixed: "\<forall>i. clk i = today"
      and resp: "generate_text env gemini_model
                   (tasks_prompt tr (join '', '' atts) (strftime_ymd today)) = Inr r"
      and dec: "loads (clean_response r) = Inr (JArray (map JObject ds))" for r ds
  proof -
    from fixed have c: "clk k = today" by simp
    have "fst (tasks_try env loads clk k tr atts)
          = fst (ai_tasks_loop clk (map JObject ds) [] (Suc k))"
      using resp dec by (simp add: tasks_try_def c tasks_of_response_eq)
    also have "\<dots> = Inr (map ?mk ds)"
      using ai_tasks_loop_objects [OF fixed, of ds "[]" "Suc k"] by (simp add: dict_get_def)
    finally show ?thesis
      by (simp add: extract_tasks_ai_ok)
  qed
  let ?T = \<open>''[{"assignee": "Zed", "priority": "Urgent"}]''\<close>
  let ?d = "[(''assignee'', JString ''Zed''), (''priority'', JString ''Urgent'')]"
  have clean: "clean_response ?T = ?T"
    by (rule clean_unfenced) (simp_all add: trimmed_def isspace_def endswith_def)
  have ex: "\<exists>ts t. fst (extract_tasks_ai env loads clk k tr atts key ui) = Inr ts
              \<and> t \<in> set ts
              \<and> assignee t \<notin> JString ` (set atts \<union> {''Unassigned''})
              \<and> priority t \<notin> JString ` {''High'', ''Medium'', ''Low''}
              \<and> description t = JString []
              \<and> due_date t = JString (strftime_ymd (today + 7))"
    if fixed: "\<forall>i. clk i = today"
      and resp: "generate_text env gemini_model
                   (tasks_prompt tr (join '', '' atts) (strftime_ymd today)) = Inr ?T"
      and dec: "loads ?T = Inr (JArray [JObject ?d])"
      and zed: "''Zed'' \<notin> set atts"
  proof -
    have "fst (extract_tasks_ai env loads clk k tr atts key ui) = Inr (map ?mk [?d])"
      using main [OF fixed resp, of "[?d]"] dec clean by simp
    moreover have "assignee (?mk ?d) = JString ''Zed''" and "priority (?mk ?d) = JString ''Urgent''"
      and "description (?mk ?d) = JString []"
      and "due_date (?mk ?d) = JString (strftime_ymd (today + 7))"
      by (simp_all add: mk_Task_def)
    moreover have "JString ''Zed'' \<notin> JString ` (set atts \<union> {''Unassigned''})"
      using zed by auto
    moreover have "JString ''Urgent'' \<notin> JString ` {''High'', ''Medium'', ''Low''}"
      by simp
    ultimately show ?thesis
      by (intro exI [of _ "map ?mk [?d]"] exI [of _ "?mk ?d"]) simp
  qed
  from main [of resp dicts] ex show ?thesis
    by blast
qed

theorem ai_tasks_verbatim_witness:
  \<open>(\<forall>i. fixed_clock 739000 i = 739000)
   \<and> json_loads_plain ''[{"assignee": "Zed", "priority": "Urgent"}]''
       = Inr (JArray [JObject [(''assignee'', JString ''Zed''),
                               (''priority'', JString ''Urgent'')]])
   \<and> ''Zed'' \<notin> set [''Alice'', ''Bob'']
   \<and> fst (extract_tasks_ai (answering ''[{"assignee": "Zed", "priority": "Urgent"}]'')
            json_loads_plain (fixed_clock 739000) 0 ''Bob: I will do it'' [''Alice'', ''Bob'']
            ''key'' [])
     = Inr [mk_Task (JString []) (JString ''Zed'') (JString ''2024-05-01'') (JString ''Urgent'')]
   \<and> (\<exists>ts t. fst (extract_tasks_ai (answering ''[{"assignee": "Zed", "priority": "Urgent"}]'')
            json_loads_plain (fixed_clock 739000) 0 ''Bob: I will do it'' [''Alice'', ''Bob'']
            ''key'' []) = Inr ts
        \<and> t \<in> set ts
        \<and> assignee t \<notin> JString ` (set [''Alice'', ''Bob''] \<union> {''Unassigned''})
        \<and> priority t \<notin> JString ` {''High'', ''Medium'', ''Low''})\<close>
proof -
  let ?T = \<open>''[{"assignee": "Zed", "priority": "Urgent"}]''\<close>
  let ?d = "[(''assignee'', JString ''Zed''), (''priority'', JString ''Urgent'')]"
  let ?atts = "[''Alice'', ''Bob'']"
  have h: "\<forall>i. fixed_clock 739000 i = 739000"
    by (simp add: fixed_clock_def)
  have g: "generate_text (answering ?T) gemini_model p = Inr ?T" for p
    by (simp add: answering_def)
  have dec: "json_loads_plain ?T = Inr (JArray [JObject ?d])"
    by code_simp
  have cl: "clean_response ?T = ?T"
    by code_simp
  have z: "''Zed'' \<notin> set ?atts"
    by simp
  have due: "strftime_ymd (739000 + 7) = ''2024-05-01''"
    by code_simp
  note T = ai_tasks_verbatim [where clk = "fixed_clock 739000" and today = 739000
      and env = "answering ?T" and tr = "''Bob: I will do it''" and atts = ?atts and resp = ?T
      and loads = json_loads_plain and dicts = "[?d]" and k = 0 and key = "''key''"
      and ui = "[]"]
  have r: "fst (extract_tasks_ai (answering ?T) json_loads_plain (fixed_clock 739000) 0
                 ''Bob: I will do it'' ?atts ''key'' [])
           = Inr [mk_Task (JString []) (JString ''Zed'') (JString ''2024-05-01'') (JString ''Urgent'')]"
    using T h g dec cl due by simp
  have e: "\<exists>ts t. fst (extract_tasks_ai (answering ?T) json_loads_plain (fixed_clock 739000) 0
                 ''Bob: I will do it'' ?atts ''key'' []) = Inr ts
        \<and> t \<in> set ts
        \<and> assignee t \<notin> JString ` (set ?atts \<union> {''Unassigned''})
        \<and> priority t \<notin> JString ` {''High'', ''Medium'', ''Low''}"
    using T h g dec z by blast
  from h dec z r e show ?thesis by blast
qed

section \<open>Saved meetings: properties\<close>

lemma upsert_all_append: "upsert_all s (ms @ [m]) = upsert (upsert_all s ms) m"
  by (induction ms arbitrary: s) simp_all

lemma ids_upsert_all: "id_m ` set (upsert_all s ms) = id_m ` set s \<union> id_m ` set ms"
proof (induction ms arbitrary: s)
  case Nil
  show ?case by simp
next
  case (Cons m ms)
  have "id_m ` set (upsert s m) = insert (id_m m) (id_m ` set s)"
    by (auto simp: upsert_def)
  with Cons.IH [of "upsert s m"] show ?case by auto
qed

lemma upsert_fresh: "id_m m \<notin> id_m ` set s \<Longrightarrow> upsert s m = s @ [m]"
proof -
  assume "id_m m \<notin> id_m ` set s"
  then have "\<forall>x \<in> set s. id_m x \<noteq> id_m m"
    by (metis imageI)
  then have "filter (\<lambda>x. id_m x \<noteq> id_m m) s = s"
    by (simp add: filter_id_conv)
  then show ?thesis by (simp add: upsert_def)
qed

lemma upsert_all_distinct:
  "distinct (map id_m ms) \<Longrightarrow> upsert_all [] ms = ms"
proof (induction ms rule: rev_induct)
  case Nil
  show ?case by simp
next
  case (snoc m ms)
  then have d: "distinct (map id_m ms)" and fresh: "id_m m \<notin> id_m ` set ms"
    by simp_all
  from snoc.IH [OF d] have eq: "upsert_all [] ms = ms" .
  show ?case
    by (simp add: upsert_all_append eq upsert_fresh [OF fresh])
qed

text \<open>
  C9. After \<open>upsert\<close> of a meeting \<open>m\<close> the store holds exactly one record with the id of
  \<open>m\<close>, and it is \<open>m\<close> itself; the records with other ids are kept, in their order, and
  \<open>m\<close>, saved last, is listed last. Saving
  twice under one id leaves the record of the second call only. A meeting whose id is not
  in the store is appended, and listing a store built by saving meetings with distinct ids
  gives them back in the order they were saved.
\<close>

theorem upsert_one_record_per_id:
  "filter (\<lambda>x. id_m x = id_m m) (list_meetings (upsert s m)) = [m]
   \<and> filter (\<lambda>x. id_m x \<noteq> id_m m) (list_meetings (upsert s m)) = filter (\<lambda>x. id_m x \<noteq> id_m m) s
   \<and> last (list_meetings (upsert s m)) = m
   \<and> (id_m m2 = id_m m \<longrightarrow>
        filter (\<lambda>x. id_m x = id_m m) (list_meetings (upsert (upsert s m) m2)) = [m2])
   \<and> (id_m m \<notin> id_m ` set s \<longrightarrow> list_meetings (upsert s m) = s @ [m])
   \<and> (distinct (map id_m ms) \<longrightarrow> list_meetings (upsert_all [] ms) = ms)"
proof -
  have one: "filter (\<lambda>x. id_m x = id_m m') (upsert s' m') = [m']"
    for m' :: "('a, 'b) Meeting" and s'
    by (simp add: upsert_def)
  have others: "filter (\<lambda>x. id_m x \<noteq> id_m m) (upsert s m) = filter (\<lambda>x. id_m x \<noteq> id_m m) s"
    by (simp add: upsert_def)
  have twice: "id_m m2 = id_m m \<longrightarrow> filter (\<lambda>x. id_m x = id_m m) (upsert (upsert s m) m2) = [m2]"
    using one [of m2 "upsert s m"] by auto
  have latest: "last (upsert s m) = m"
    by (simp add: upsert_def)
  show ?thesis
    unfolding list_meetings_def
    using one [of m s] others latest twice upsert_fresh [of m s] upsert_all_distinct [of ms]
    by blast
qed

theorem upsert_one_record_per_id_witness:
  "filter (\<lambda>x. id_m x = ''20240115093000'')
     (list_meetings (upsert [example_meeting ''20240115093000'' ''Stand-up'',
                             example_meeting ''20240116100000'' ''Client call'']
                            (example_meeting ''20240115093000'' ''Stand-up, edited'')))
     = [example_meeting ''20240115093000'' ''Stand-up, edited'']
   \<and> list_meetings (upsert [example_meeting ''20240115093000'' ''Stand-up'']
                       (example_meeting ''20240116100000'' ''Client call''))
     = [example_meeting ''20240115093000'' ''Stand-up'',
        example_meeting ''20240116100000'' ''Client call'']
   \<and> list_meetings (upsert_all []
        [example_meeting ''20240115093000'' ''Stand-up'',
         example_meeting ''20240116100000'' ''Client call''])
     = [example_meeting ''20240115093000'' ''Stand-up'',
        example_meeting ''20240116100000'' ''Client call'']"
proof -
  let ?a = "example_meeting ''20240115093000'' ''Stand-up''"
  let ?b = "example_meeting ''20240116100000'' ''Client call''"
  let ?a2 = "example_meeting ''20240115093000'' ''Stand-up, edited''"
  have ida: "id_m ?a = ''20240115093000''" and idb: "id_m ?b = ''20240116100000''"
    and ida2: "id_m ?a2 = ''20240115093000''"
    by (simp_all add: example_meeting_def)
  have fresh: "id_m ?b \<notin> id_m ` set [?a]"
    by (simp add: ida idb)
  have dist: "distinct (map id_m [?a, ?b])"
    by (simp add: ida idb)
  from upsert_one_record_per_id [of ?a2 "[?a, ?b]" ?b "[?a, ?b]"] fresh dist
  show ?thesis
    using upsert_one_record_per_id [of ?b "[?a]" ?b "[?a, ?b]"]
    by (simp add: ida ida2)
qed

end

